theory Spec2Isabelle
  imports Complex_Main "HOL-Library.Extended_Nat" "HOL-Library.Log_Nat"
begin

section \<open>Gateway frames and configuration\<close>

text \<open>
  The payload of a frame is opaque JSON. Only the shapes the gateway client inspects are
  distinguished: the truthiness of the invalid-session payload, the \<open>heartbeat_interval\<close> of
  HELLO and the \<open>session_id\<close> of READY.
\<close>

datatype json =
    JUndefined
  | JNull
  | JBool bool
  | JNum int
  | JStr string
  | JObj "(string \<times> json) list"

fun truthy :: "json \<Rightarrow> bool" where
  "truthy JUndefined = False"
| "truthy JNull = False"
| "truthy (JBool b) = b"
| "truthy (JNum n) = (n \<noteq> 0)"
| "truthy (JStr x) = (x \<noteq> [])"
| "truthy (JObj kv) = True"

section \<open>Numbers\<close>

text \<open>
  The reconnect delay is computed in JavaScript numbers, IEEE 754 binary64. A finite number
  \<open>Fin m e\<close> is \<open>m * 2 ^ e\<close>; the two zeros are not distinguished. An operation computes
  its exact result and rounds it once: to 53 significant bits, or to a multiple of
  \<open>2 ^ - 1074\<close> where that is coarser (subnormal numbers), ties to the even significand, and
  to an infinity when the rounded magnitude reaches \<open>2 ^ 1024\<close>.
\<close>

datatype double = Fin int int | PosInf | NegInf | NaN

fun valueOf :: "double \<Rightarrow> real" where
  "valueOf (Fin m e) = real_of_int m * 2 powi e"
| "valueOf PosInf = 0"
| "valueOf NegInf = 0"
| "valueOf NaN = 0"

text \<open>\<open>m / 2 ^ k\<close> rounded to the nearest integer, ties to even.\<close>

definition roundShift :: "int \<Rightarrow> nat \<Rightarrow> int" where
  "roundShift m k =
     (let q = m div 2 ^ k; r = m mod 2 ^ k; h = 2 ^ (k - 1)
      in if r < h then q else if h < r then q + 1 else if even q then q else q + 1)"

definition rounded :: "int \<Rightarrow> int \<Rightarrow> int \<times> int" where
  "rounded m e =
     (let k = max (bitlen \<bar>m\<bar> - 53) (- 1074 - e)
      in if k \<le> 0 then (m, e) else (roundShift m (nat k), e + k))"

definition round53 :: "int \<Rightarrow> int \<Rightarrow> double" where
  "round53 m e =
     (case rounded m e of
        (m', e') \<Rightarrow>
          if m' = 0 then Fin 0 0
          else if bitlen \<bar>m'\<bar> + e' > 1024 then (if 0 < m' then PosInf else NegInf)
          else Fin m' e')"

text \<open>The operator \<open>*\<close>.\<close>

fun dmul :: "double \<Rightarrow> double \<Rightarrow> double" where
  "dmul NaN b = NaN"
| "dmul a NaN = NaN"
| "dmul (Fin m e) (Fin n f) = round53 (m * n) (e + f)"
| "dmul (Fin m e) PosInf = (if m = 0 then NaN else if 0 < m then PosInf else NegInf)"
| "dmul (Fin m e) NegInf = (if m = 0 then NaN else if 0 < m then NegInf else PosInf)"
| "dmul PosInf (Fin n f) = (if n = 0 then NaN else if 0 < n then PosInf else NegInf)"
| "dmul NegInf (Fin n f) = (if n = 0 then NaN else if 0 < n then NegInf else PosInf)"
| "dmul PosInf PosInf = PosInf"
| "dmul PosInf NegInf = NegInf"
| "dmul NegInf PosInf = NegInf"
| "dmul NegInf NegInf = PosInf"

text \<open>The operator \<open>+\<close>.\<close>

fun dadd :: "double \<Rightarrow> double \<Rightarrow> double" where
  "dadd NaN b = NaN"
| "dadd a NaN = NaN"
| "dadd (Fin m e) (Fin n f) =
     (let e0 = min e f in round53 (m * 2 ^ nat (e - e0) + n * 2 ^ nat (f - e0)) e0)"
| "dadd (Fin m e) b = b"
| "dadd a (Fin n f) = a"
| "dadd PosInf NegInf = NaN"
| "dadd NegInf PosInf = NaN"
| "dadd PosInf PosInf = PosInf"
| "dadd NegInf NegInf = NegInf"

text \<open>\<open>Math.min\<close> of two numbers: NaN when either is.\<close>

fun dmin :: "double \<Rightarrow> double \<Rightarrow> double" where
  "dmin NaN b = NaN"
| "dmin a NaN = NaN"
| "dmin NegInf b = NegInf"
| "dmin a NegInf = NegInf"
| "dmin PosInf b = b"
| "dmin a PosInf = a"
| "dmin (Fin m e) (Fin n f) =
     (let e0 = min e f
      in if m * 2 ^ nat (e - e0) \<le> n * 2 ^ nat (f - e0) then Fin m e else Fin n f)"

text \<open>\<open>Math.pow(2, k)\<close> for a count \<open>k\<close>: exact up to \<open>2 ^ 1023\<close>, \<open>Infinity\<close> beyond.\<close>

definition mathPow2 :: "nat \<Rightarrow> double" where
  "mathPow2 k = (if k \<le> 1023 then Fin 1 (int k) else PosInf)"

text \<open>
  The enum \<open>FluxorOpCode\<close> (gateway/opcodes.ts) is used by member name only; the numeric
  values never enter the control flow of the client, so the members are constructors and every
  other number on the wire is \<open>UnknownOp\<close>.
\<close>

datatype opcode =
    Dispatch
  | Heartbeat
  | Identify
  | PresenceUpdate
  | VoiceStateUpdate
  | Resume
  | Reconnect
  | RequestGuildMembers
  | InvalidSession
  | Hello
  | HeartbeatAck
  | CallConnect
  | GuildSubscriptions
  | UnknownOp int

text \<open>The inbound packet \<open>{ op, d, s, t }\<close>; \<open>s\<close> and \<open>t\<close> may be null or absent.\<close>

record packet =
  pkt_op :: opcode
  pkt_d :: json
  pkt_s :: "int option"
  pkt_t :: "string option"

text \<open>
  Outbound frames written by \<open>_send\<close>. The identify payload (token, client properties,
  presence, ignored events) is constant per client and is not spelled out.
\<close>

datatype frame =
    IdentifyFrame
  | ResumeFrame string int
  | HeartbeatFrame "int option"
  | ControlFrame opcode json

text \<open>
  The resolved configuration: base reconnect delay in seconds (a number), the maximum number
  of reconnect attempts (\<open>Infinity\<close> by default, hence \<open>enat\<close>) and the optional ignore-list.
\<close>

record config =
  reconnectDelay :: double
  maxReconnectAttempts :: enat
  ignoredGatewayEvents :: "string list option"

section \<open>Close codes\<close>

text \<open>
  Modelled from the spec: gateway/closeCodes.ts (the enum \<open>FluxorCloseCode\<close> and the
  function \<open>shouldReconnect\<close>) is not among the sources. The numbers and the reconnect
  classification are those of the close-code table of the gateway documentation:
  4004, 4010, 4011, 4012, 4013 and 4014 do not reconnect, every other code does.
\<close>

definition AuthenticationFailed :: int where
  "AuthenticationFailed = 4004"

definition InvalidSequence :: int where
  "InvalidSequence = 4007"

definition SessionTimedOut :: int where
  "SessionTimedOut = 4009"

definition shouldReconnectForCode :: "int \<Rightarrow> bool" where
  "shouldReconnectForCode code =
     (code \<noteq> 4004 \<and> code \<noteq> 4010 \<and> code \<noteq> 4011 \<and> code \<noteq> 4012 \<and> code \<noteq> 4013 \<and> code \<noteq> 4014)"

section \<open>The gateway client state\<close>

datatype readyState = CONNECTING | OPEN | CLOSING | CLOSED

text \<open>
  Timers the client has armed and that have not fired or been cleared: the reconnect
  timeout with its delay in milliseconds; the timeout before the first heartbeat, whose delay
  is \<open>Math.random() * intervalMs\<close>, kept as its two factors; and the heartbeat interval with
  its handle and \<open>intervalMs\<close>. The interval is whatever \<open>data.heartbeat_interval\<close> was.
\<close>

datatype timer =
    ReconnectTimer double
  | HeartbeatFirst double json
  | HeartbeatTick nat json

fun isReconnectTimer :: "timer \<Rightarrow> bool" where
  "isReconnectTimer (ReconnectTimer dl) = True"
| "isReconnectTimer _ = False"

fun isTick :: "nat \<Rightarrow> timer \<Rightarrow> bool" where
  "isTick i (HeartbeatTick j iv) = (i = j)"
| "isTick i _ = False"

text \<open>
  The private fields of \<open>GatewayClient\<close>, followed by what the client has done to its
  environment: the \<open>settled\<close> flag of the pending \<open>connect()\<close> promise, the frames written to
  the transport, the events emitted, the armed timers, the next timer handle and the number of
  times \<open>connect()\<close> has been entered.
\<close>

record gateway =
  ws :: "readyState option"
  sequence :: int
  sessionId :: string
  heartbeatInterval :: "nat option"
  heartbeatAcked :: bool
  heartbeatSentAt :: int
  lastPing :: int
  reconnectAttempts :: nat
  isConnecting :: bool
  isReconnecting :: bool
  destroyed :: bool
  settled :: bool
  sent :: "frame list"
  emitted :: "(string \<times> json) list"
  timers :: "timer list"
  nextTimerId :: nat
  connectCalls :: nat

definition initial :: gateway where
  "initial = \<lparr> ws = None, sequence = 0, sessionId = [], heartbeatInterval = None,
     heartbeatAcked = True, heartbeatSentAt = 0, lastPing = -1, reconnectAttempts = 0,
     isConnecting = False, isReconnecting = False, destroyed = False, settled = False,
     sent = [], emitted = [], timers = [], nextTimerId = 0, connectCalls = 0 \<rparr>"

section \<open>Internal operations of the gateway client\<close>

definition emit :: "string \<Rightarrow> json \<Rightarrow> gateway \<Rightarrow> gateway" where
  "emit name payload g = g\<lparr>emitted := emitted g @ [(name, payload)]\<rparr>"

text \<open>\<open>_send\<close>: dropped with a warning unless the transport exists and is open.\<close>

definition send :: "frame \<Rightarrow> gateway \<Rightarrow> gateway" where
  "send f g = (if ws g \<noteq> Some OPEN then g else g\<lparr>sent := sent g @ [f]\<rparr>)"

definition stopHeartbeat :: "gateway \<Rightarrow> gateway" where
  "stopHeartbeat g =
     (case heartbeatInterval g of
        None \<Rightarrow> g
      | Some i \<Rightarrow> g\<lparr>timers := filter (\<lambda>x. \<not> isTick i x) (timers g), heartbeatInterval := None\<rparr>)"

text \<open>
  \<open>_cleanup\<close>: stops the heartbeat, removes every listener of the socket, closes it with
  code 1000 when it is open or connecting, and forgets it. A forgotten socket delivers no
  further event.
\<close>

definition cleanup :: "gateway \<Rightarrow> gateway" where
  "cleanup g = (let g1 = stopHeartbeat g in if ws g1 \<noteq> None then g1\<lparr>ws := None\<rparr> else g1)"

text \<open>\<open>_sendHeartbeat\<close>; \<open>now\<close> is \<open>Date.now()\<close>, and \<open>this._sequence || null\<close> sends null for 0.\<close>

definition sendHeartbeat :: "int \<Rightarrow> gateway \<Rightarrow> gateway" where
  "sendHeartbeat now g =
     send (HeartbeatFrame (if sequence g = 0 then None else Some (sequence g)))
       (g\<lparr>heartbeatAcked := False, heartbeatSentAt := now\<rparr>)"

text \<open>
  The delay computation of \<open>_scheduleReconnect\<close>, named after its local variables;
  \<open>rand\<close> is the value of \<open>Math.random()\<close>. The attempt counter has just been incremented
  when \<open>backoff\<close> is computed, so the exponent \<open>attempts - 1\<close> is a count. The literal
  \<open>0.3\<close> is the number nearest to it, \<open>5404319552844595 * 2 ^ - 54\<close>; 60 and 1000 are exact.
\<close>

definition backoff :: "nat \<Rightarrow> double \<Rightarrow> double" where
  "backoff attempts configBase = dmin (dmul (mathPow2 (attempts - 1)) configBase) (Fin 60 0)"

definition jitter :: "double \<Rightarrow> nat \<Rightarrow> double \<Rightarrow> double" where
  "jitter rand attempts configBase =
     dmul (dmul rand (Fin 5404319552844595 (- 54))) (backoff attempts configBase)"

definition delayMs :: "double \<Rightarrow> nat \<Rightarrow> double \<Rightarrow> double" where
  "delayMs rand attempts configBase =
     dmul (dadd (backoff attempts configBase) (jitter rand attempts configBase)) (Fin 1000 0)"

definition scheduleReconnect :: "config \<Rightarrow> double \<Rightarrow> gateway \<Rightarrow> gateway" where
  "scheduleReconnect cfg rand g =
     (if destroyed g then g
      else if isReconnecting g then g
      else
        let g1 = g\<lparr>isReconnecting := True\<rparr> in
        if enat (reconnectAttempts g1) \<ge> maxReconnectAttempts cfg
        then g1\<lparr>isReconnecting := False\<rparr>
        else
          let g2 = g1\<lparr>reconnectAttempts := reconnectAttempts g1 + 1\<rparr> in
          g2\<lparr>timers := timers g2 @
               [ReconnectTimer (delayMs rand (reconnectAttempts g2) (reconnectDelay cfg))]\<rparr>)"

text \<open>\<open>_handleCloseCode\<close>.\<close>

definition handleCloseCode :: "int \<Rightarrow> gateway \<Rightarrow> gateway" where
  "handleCloseCode code g =
     (if code = AuthenticationFailed \<or> code = InvalidSequence \<or> code = SessionTimedOut
      then g\<lparr>sessionId := [], sequence := 0\<rparr>
      else g)"

text \<open>
  \<open>_startHeartbeat\<close>: the first heartbeat is a timeout of \<open>Math.random() * intervalMs\<close>,
  whose handle is not kept; the interval is created when that timeout fires.
\<close>

definition startHeartbeat :: "double \<Rightarrow> json \<Rightarrow> gateway \<Rightarrow> gateway" where
  "startHeartbeat rand intervalMs g =
     (let g1 = (stopHeartbeat g)\<lparr>heartbeatAcked := True\<rparr>
      in g1\<lparr>timers := timers g1 @ [HeartbeatFirst rand intervalMs]\<rparr>)"

text \<open>The body of the jittered timeout: send, then install the interval.\<close>

definition heartbeatFirstFired :: "int \<Rightarrow> json \<Rightarrow> gateway \<Rightarrow> gateway" where
  "heartbeatFirstFired now intervalMs g =
     (let g1 = sendHeartbeat now g
      in g1\<lparr>heartbeatInterval := Some (nextTimerId g1),
            timers := timers g1 @ [HeartbeatTick (nextTimerId g1) intervalMs],
            nextTimerId := nextTimerId g1 + 1\<rparr>)"

text \<open>The body of the interval callback.\<close>

definition heartbeatTick :: "config \<Rightarrow> double \<Rightarrow> int \<Rightarrow> gateway \<Rightarrow> gateway" where
  "heartbeatTick cfg rand now g =
     (if \<not> heartbeatAcked g then scheduleReconnect cfg rand (cleanup g)
      else sendHeartbeat now g)"

definition sendIdentify :: "gateway \<Rightarrow> gateway" where
  "sendIdentify g = send IdentifyFrame g"

definition sendResume :: "gateway \<Rightarrow> gateway" where
  "sendResume g = send (ResumeFrame (sessionId g) (sequence g)) g"

text \<open>
  \<open>data.heartbeat_interval\<close>: reading a property of \<open>null\<close> or \<open>undefined\<close> throws a
  TypeError; an object without the property, and any other value, gives \<open>undefined\<close>.
\<close>

datatype error = TypeError

fun heartbeat_interval :: "json \<Rightarrow> error + json" where
  "heartbeat_interval JUndefined = Inl TypeError"
| "heartbeat_interval JNull = Inl TypeError"
| "heartbeat_interval (JObj kv) =
     Inr (case map_of kv ''heartbeat_interval'' of None \<Rightarrow> JUndefined | Some v \<Rightarrow> v)"
| "heartbeat_interval _ = Inr JUndefined"

text \<open>
  \<open>_handleHello\<close>. The read of the interval is its first statement, so when it throws
  nothing has been done: no heartbeat timer, no frame.
\<close>

definition handleHello :: "double \<Rightarrow> json \<Rightarrow> gateway \<Rightarrow> error + gateway" where
  "handleHello rand data g =
     (case heartbeat_interval data of
        Inl err \<Rightarrow> Inl err
      | Inr interval \<Rightarrow>
          Inr (let g1 = startHeartbeat rand interval g
               in if sessionId g1 \<noteq> [] then sendResume g1 else sendIdentify g1))"

text \<open>
  \<open>onReady\<close> is \<open>settle(resolve)\<close>: the first call settles the promise of \<open>connect()\<close>,
  whose \<open>finally\<close> block then resets \<open>_isConnecting\<close>.
\<close>

definition settle :: "gateway \<Rightarrow> gateway" where
  "settle g = (if settled g then g else g\<lparr>settled := True, isConnecting := False\<rparr>)"

text \<open>\<open>ready?.session_id ?? ""\<close>.\<close>

fun session_id :: "json \<Rightarrow> string" where
  "session_id (JObj kv) = (case map_of kv ''session_id'' of Some (JStr x) \<Rightarrow> x | _ \<Rightarrow> [])"
| "session_id _ = []"

definition ignored :: "config \<Rightarrow> string \<Rightarrow> bool" where
  "ignored cfg eventName =
     (case ignoredGatewayEvents cfg of None \<Rightarrow> False | Some names \<Rightarrow> eventName \<in> set names)"

definition rawPayload :: "string \<Rightarrow> json \<Rightarrow> json" where
  "rawPayload eventName data = JObj [(''event'', JStr eventName), (''data'', data)]"

text \<open>\<open>_handleDispatch\<close>, in the order of the source: empty name, ignore-list, raw, READY, RESUMED, typed event.\<close>

definition handleDispatch :: "config \<Rightarrow> packet \<Rightarrow> gateway \<Rightarrow> gateway" where
  "handleDispatch cfg p g =
     (case pkt_t p of
        None \<Rightarrow> g
      | Some eventName \<Rightarrow>
          if eventName = [] then g
          else if ignored cfg eventName then g
          else
            let g1 = emit ''raw'' (rawPayload eventName (pkt_d p)) g in
            if eventName = ''READY'' then
              settle (emit ''READY'' (pkt_d p)
                (g1\<lparr>sessionId := session_id (pkt_d p), reconnectAttempts := 0,
                    isConnecting := False\<rparr>))
            else if eventName = ''RESUMED'' then
              settle (emit ''RESUMED'' JUndefined
                (g1\<lparr>reconnectAttempts := 0, isConnecting := False\<rparr>))
            else emit eventName (pkt_d p) g1)"

text \<open>
  \<open>_handleMessage\<close>. The argument is the result of \<open>JSON.parse\<close>: \<open>None\<close> when it throws.
  The result is the state when \<open>_handleMessage\<close> is left: by returning, or by the TypeError
  of \<open>_handleHello\<close>, which the \<open>message\<close> listener of the socket catches and logs; the
  sequence number of the frame has been stored by then.
\<close>

definition handleMessage :: "config \<Rightarrow> double \<Rightarrow> int \<Rightarrow> packet option \<Rightarrow> gateway \<Rightarrow> gateway" where
  "handleMessage cfg rand now raw g =
     (case raw of
        None \<Rightarrow> g
      | Some p \<Rightarrow>
          let g1 = (case pkt_s p of None \<Rightarrow> g | Some q \<Rightarrow> g\<lparr>sequence := q\<rparr>) in
          (case pkt_op p of
             Hello \<Rightarrow>
               (case handleHello rand (pkt_d p) g1 of Inl err \<Rightarrow> g1 | Inr g2 \<Rightarrow> g2)
           | HeartbeatAck \<Rightarrow>
               let g2 = g1\<lparr>heartbeatAcked := True\<rparr>;
                   latency = (if heartbeatSentAt g2 > 0 then now - heartbeatSentAt g2 else -1)
               in emit ''HEARTBEAT_ACK'' (JNum latency) (g2\<lparr>lastPing := latency\<rparr>)
           | Heartbeat \<Rightarrow> sendHeartbeat now g1
           | InvalidSession \<Rightarrow>
               let g2 = (if \<not> truthy (pkt_d p) then g1\<lparr>sessionId := [], sequence := 0\<rparr> else g1)
               in scheduleReconnect cfg rand (cleanup g2)
           | Reconnect \<Rightarrow> scheduleReconnect cfg rand (cleanup g1)
           | Dispatch \<Rightarrow> handleDispatch cfg p g1
           | _ \<Rightarrow> g1))"

section \<open>Public operations and transport callbacks\<close>

text \<open>
  \<open>connect()\<close> up to the point where it waits for the promise: the guard, the flags, the
  cleanup of the previous socket and the new socket in state CONNECTING.
\<close>

definition connect :: "gateway \<Rightarrow> gateway" where
  "connect g =
     (let g0 = g\<lparr>connectCalls := connectCalls g + 1\<rparr> in
      if isConnecting g0 then g0
      else (cleanup (g0\<lparr>isConnecting := True, destroyed := False\<rparr>))
             \<lparr>ws := Some CONNECTING, settled := False\<rparr>)"

definition destroy :: "gateway \<Rightarrow> gateway" where
  "destroy g = cleanup (g\<lparr>destroyed := True\<rparr>)"

text \<open>The \<open>close\<close> listener of the socket.\<close>

definition onClose :: "config \<Rightarrow> double \<Rightarrow> int \<Rightarrow> string \<Rightarrow> gateway \<Rightarrow> gateway" where
  "onClose cfg rand code reason g =
     (let g1 = (stopHeartbeat g)\<lparr>isConnecting := False\<rparr>;
          g2 = emit ''close'' (JObj [(''code'', JNum code), (''reason'', JStr reason)]) g1;
          g3 = settle (handleCloseCode code g2)
      in if \<not> destroyed g3 \<and> shouldReconnectForCode code then scheduleReconnect cfg rand g3
         else g3)"

text \<open>The body of the reconnect timeout.\<close>

definition reconnectFired :: "gateway \<Rightarrow> gateway" where
  "reconnectFired g =
     (let g1 = g\<lparr>isReconnecting := False\<rparr> in if destroyed g1 then g1 else connect g1)"

section \<open>The client as a transition system\<close>

text \<open>
  Everything that can happen to a client: calls of \<open>connect()\<close> and \<open>destroy()\<close>, a call
  of one of the frame-sending methods (presence update, member request, voice state, call
  connect, guild subscription), events of the current socket, and an armed timer firing (by
  its position among the armed timers).
  A socket that has been forgotten by \<open>_cleanup\<close> has no listeners, and a socket delivers
  messages only while open and a close event only once.
\<close>

datatype event =
    Connect
  | Destroy
  | Control opcode json
  | WsOpen
  | WsMessage "packet option"
  | WsClose int string
  | WsError string
  | TimerFired nat

definition removeAt :: "nat \<Rightarrow> 'a list \<Rightarrow> 'a list" where
  "removeAt i xs = take i xs @ drop (Suc i) xs"

definition fireTimer :: "config \<Rightarrow> double \<Rightarrow> int \<Rightarrow> nat \<Rightarrow> gateway \<Rightarrow> gateway" where
  "fireTimer cfg rand now i g =
     (if i < length (timers g) then
        (case timers g ! i of
           ReconnectTimer dl \<Rightarrow> reconnectFired (g\<lparr>timers := removeAt i (timers g)\<rparr>)
         | HeartbeatFirst factor iv \<Rightarrow> heartbeatFirstFired now iv (g\<lparr>timers := removeAt i (timers g)\<rparr>)
         | HeartbeatTick h iv \<Rightarrow> heartbeatTick cfg rand now g)
      else g)"

definition step :: "config \<Rightarrow> double \<Rightarrow> int \<Rightarrow> event \<Rightarrow> gateway \<Rightarrow> gateway" where
  "step cfg rand now ev g =
     (case ev of
        Connect \<Rightarrow> connect g
      | Destroy \<Rightarrow> destroy g
      | Control opc payload \<Rightarrow> send (ControlFrame opc payload) g
      | WsOpen \<Rightarrow> (if ws g = Some CONNECTING then g\<lparr>ws := Some OPEN\<rparr> else g)
      | WsMessage raw \<Rightarrow> (if ws g = Some OPEN then handleMessage cfg rand now raw g else g)
      | WsClose code reason \<Rightarrow>
          (if ws g = Some CONNECTING \<or> ws g = Some OPEN \<or> ws g = Some CLOSING
           then onClose cfg rand code reason (g\<lparr>ws := Some CLOSED\<rparr>) else g)
      | WsError msg \<Rightarrow> (if ws g \<noteq> None then emit ''error'' (JStr msg) g else g)
      | TimerFired i \<Rightarrow> fireTimer cfg rand now i g)"

text \<open>A run: each event comes with the values of \<open>Math.random()\<close> and \<open>Date.now()\<close> it sees.\<close>

fun run :: "config \<Rightarrow> (double \<times> int \<times> event) list \<Rightarrow> gateway \<Rightarrow> gateway" where
  "run cfg [] g = g"
| "run cfg ((rand, now, ev) # rest) g = run cfg rest (step cfg rand now ev g)"

definition pendingReconnects :: "gateway \<Rightarrow> nat" where
  "pendingReconnects g = length (filter isReconnectTimer (timers g))"

text \<open>
  The guard of \<open>_scheduleReconnect\<close> as an invariant: the flag \<open>_isReconnecting\<close> is set
  exactly while one reconnect timeout is armed, and never more than one is.
\<close>

definition reconnectInv :: "gateway \<Rightarrow> bool" where
  "reconnectInv g = (pendingReconnects g = (if isReconnecting g then 1 else 0))"

section \<open>waitFor\<close>

text \<open>
  One call of \<open>waitFor\<close>, seen from the emitter: the registered listeners of the emitter in
  registration order (event name and listener identity), the armed timeout of this call, and
  the calls of \<open>resolve\<close> and \<open>reject\<close> made so far. The emitter is Node's: \<open>on\<close> appends,
  \<open>off\<close> removes the most recently added instance, \<open>emit\<close> calls the listeners of the name
  in registration order on a copy of the list. Listeners other than the handler of this call
  are foreign and do not touch its state.
\<close>

datatype settlement = Resolved json | Rejected string real

record waitState =
  listeners :: "(string \<times> nat) list"
  timer :: "real option"
  fired :: "settlement list"

definition removeLast :: "'a \<Rightarrow> 'a list \<Rightarrow> 'a list" where
  "removeLast x xs = rev (remove1 x (rev xs))"

text \<open>The closure \<open>cleanup\<close> of \<open>waitFor\<close>.\<close>

definition cleanupWait :: "string \<Rightarrow> nat \<Rightarrow> waitState \<Rightarrow> waitState" where
  "cleanupWait event h w = w\<lparr>listeners := removeLast (event, h) (listeners w), timer := None\<rparr>"

text \<open>The closure \<open>handler\<close> of \<open>waitFor\<close>.\<close>

definition handler :: "string \<Rightarrow> (json \<Rightarrow> bool) option \<Rightarrow> nat \<Rightarrow> json \<Rightarrow> waitState \<Rightarrow> waitState" where
  "handler event filt h data w =
     (if (case filt of None \<Rightarrow> False | Some f \<Rightarrow> \<not> f data) then w
      else (cleanupWait event h w)\<lparr>fired := fired w @ [Resolved data]\<rparr>)"

text \<open>
  \<open>waitFor\<close> on an emitter with listeners \<open>ls\<close>; \<open>h\<close> is the identity of the new handler
  closure. The timeout is armed only when defined and positive.
\<close>

definition waitFor ::
  "string \<Rightarrow> (json \<Rightarrow> bool) option \<Rightarrow> real option \<Rightarrow> nat \<Rightarrow> (string \<times> nat) list \<Rightarrow> waitState" where
  "waitFor event filt timeout h ls =
     \<lparr> listeners = ls @ [(event, h)],
       timer = (case timeout of None \<Rightarrow> None | Some ms \<Rightarrow> if ms > 0 then Some ms else None),
       fired = [] \<rparr>"

text \<open>The body of the timeout; it runs only while the timeout is armed.\<close>

definition timeoutElapsed :: "string \<Rightarrow> nat \<Rightarrow> waitState \<Rightarrow> waitState" where
  "timeoutElapsed event h w =
     (case timer w of
        None \<Rightarrow> w
      | Some ms \<Rightarrow> (cleanupWait event h w)\<lparr>fired := fired w @ [Rejected event ms]\<rparr>)"

definition emitTo ::
  "string \<Rightarrow> (json \<Rightarrow> bool) option \<Rightarrow> nat \<Rightarrow> string \<Rightarrow> json \<Rightarrow> waitState \<Rightarrow> waitState" where
  "emitTo event filt h name data w =
     foldl (\<lambda>w' l. if l = (event, h) then handler event filt h data w' else w') w
       (filter (\<lambda>l. fst l = name) (listeners w))"

datatype waitEvent = Emit string json | TimeoutElapsed

fun stepWait ::
  "string \<Rightarrow> (json \<Rightarrow> bool) option \<Rightarrow> nat \<Rightarrow> waitEvent \<Rightarrow> waitState \<Rightarrow> waitState" where
  "stepWait event filt h (Emit name data) w = emitTo event filt h name data w"
| "stepWait event filt h TimeoutElapsed w = timeoutElapsed event h w"

fun runWait ::
  "string \<Rightarrow> (json \<Rightarrow> bool) option \<Rightarrow> nat \<Rightarrow> waitEvent list \<Rightarrow> waitState \<Rightarrow> waitState" where
  "runWait event filt h [] w = w"
| "runWait event filt h (e # es) w = runWait event filt h es (stepWait event filt h e w)"

text \<open>
  What the documentation of \<open>waitFor\<close> promises, as a function of what happens after the
  call: the first matching event whose filter, if supplied, returns true resolves; the timeout
  elapsing first rejects.
\<close>

definition matching :: "string \<Rightarrow> (json \<Rightarrow> bool) option \<Rightarrow> waitEvent \<Rightarrow> bool" where
  "matching event filt e =
     (case e of
        Emit name data \<Rightarrow> name = event \<and> (case filt of None \<Rightarrow> True | Some f \<Rightarrow> f data)
      | TimeoutElapsed \<Rightarrow> False)"

fun firstSettlement ::
  "string \<Rightarrow> (json \<Rightarrow> bool) option \<Rightarrow> real \<Rightarrow> waitEvent list \<Rightarrow> settlement option" where
  "firstSettlement event filt ms [] = None"
| "firstSettlement event filt ms (Emit name data # es) =
     (if matching event filt (Emit name data) then Some (Resolved data)
      else firstSettlement event filt ms es)"
| "firstSettlement event filt ms (TimeoutElapsed # es) = Some (Rejected event ms)"

section \<open>Sliding-window bucket\<close>

text \<open>
  Modelled from the spec: rateLimit/RateLimitBucket.ts is not among the sources. The bucket
  follows the three steps of \<open>Bucket.acquire()\<close> in the specification: prune the timestamps
  older than \<open>now - windowMs\<close>; below \<open>limit\<close>, record \<open>now\<close> and admit; otherwise wait
  \<open>(oldestRemainingTimestamp + windowMs) - now\<close> and retry. Times are \<open>Date.now()\<close>
  milliseconds.
\<close>

record bucket =
  limit :: nat
  windowMs :: int
  timestamps :: "int list"

datatype decision = Admitted | Wait int

definition prune :: "int \<Rightarrow> bucket \<Rightarrow> bucket" where
  "prune now b = b\<lparr>timestamps := filter (\<lambda>ts. \<not> ts < now - windowMs b) (timestamps b)\<rparr>"

text \<open>
  One pass of the loop. A bucket with \<open>limit = 0\<close> is at capacity with nothing recorded; the
  specification names no oldest timestamp there, and the pass waits a full window.
\<close>

definition tryAcquire :: "int \<Rightarrow> bucket \<Rightarrow> decision \<times> bucket" where
  "tryAcquire now b =
     (let b1 = prune now b in
      if length (timestamps b1) < limit b1
      then (Admitted, b1\<lparr>timestamps := timestamps b1 @ [now]\<rparr>)
      else (case timestamps b1 of
              [] \<Rightarrow> (Wait (windowMs b1), b1)
            | oldest # others \<Rightarrow> (Wait ((oldest + windowMs b1) - now), b1)))"

text \<open>
  \<open>acquire\<close>: the loop. A suspended caller resumes no earlier than asked; each element of
  \<open>lates\<close> is how late one resumption is, and the loop is still waiting (\<open>None\<close>) when they
  are used up. The result is the instant of admission and the bucket after it.
\<close>

fun acquire :: "bucket \<Rightarrow> int \<Rightarrow> nat list \<Rightarrow> (int \<times> bucket) option" where
  "acquire b now [] =
     (case tryAcquire now b of
        (Admitted, b') \<Rightarrow> Some (now, b')
      | (Wait waitMs, b') \<Rightarrow> None)"
| "acquire b now (late # lates) =
     (case tryAcquire now b of
        (Admitted, b') \<Rightarrow> Some (now, b')
      | (Wait waitMs, b') \<Rightarrow> acquire b' (now + max waitMs 0 + int late) lates)"

text \<open>A sequence of admission requests to one bucket, each at its own instant.\<close>

fun requests :: "bucket \<Rightarrow> int list \<Rightarrow> bucket" where
  "requests b [] = b"
| "requests b (now # rest) = requests (snd (tryAcquire now b)) rest"

definition younger :: "int \<Rightarrow> bucket \<Rightarrow> int list" where
  "younger now b = filter (\<lambda>ts. now - ts < windowMs b) (timestamps b)"

section \<open>What each operation leaves unchanged\<close>

lemma filter_reconnect_ticks:
  "filter (\<lambda>x. \<not> isTick i x \<and> isReconnectTimer x) ts = filter isReconnectTimer ts"
proof -
  have "isReconnectTimer x \<Longrightarrow> \<not> isTick i x" for x
    by (cases x) simp_all
  then have "(\<not> isTick i x \<and> isReconnectTimer x) = isReconnectTimer x" for x
    by blast
  then show ?thesis by simp
qed

lemma stopHeartbeat_frame:
  "destroyed (stopHeartbeat g) = destroyed g"
  "connectCalls (stopHeartbeat g) = connectCalls g"
  "isReconnecting (stopHeartbeat g) = isReconnecting g"
  "reconnectAttempts (stopHeartbeat g) = reconnectAttempts g"
  "sessionId (stopHeartbeat g) = sessionId g"
  "sequence (stopHeartbeat g) = sequence g"
  "sent (stopHeartbeat g) = sent g"
  "ws (stopHeartbeat g) = ws g"
  "heartbeatAcked (stopHeartbeat g) = heartbeatAcked g"
  "pendingReconnects (stopHeartbeat g) = pendingReconnects g"
  by (simp_all add: stopHeartbeat_def pendingReconnects_def filter_reconnect_ticks split: option.splits)

lemma cleanup_frame:
  "destroyed (cleanup g) = destroyed g"
  "connectCalls (cleanup g) = connectCalls g"
  "isReconnecting (cleanup g) = isReconnecting g"
  "reconnectAttempts (cleanup g) = reconnectAttempts g"
  "sessionId (cleanup g) = sessionId g"
  "sequence (cleanup g) = sequence g"
  "sent (cleanup g) = sent g"
  "ws (cleanup g) = None"
  "heartbeatAcked (cleanup g) = heartbeatAcked g"
  "pendingReconnects (cleanup g) = pendingReconnects g"
  using stopHeartbeat_frame [of g]
  by (simp_all add: cleanup_def Let_def pendingReconnects_def)

lemma send_frame:
  "destroyed (send f g) = destroyed g"
  "connectCalls (send f g) = connectCalls g"
  "isReconnecting (send f g) = isReconnecting g"
  "reconnectAttempts (send f g) = reconnectAttempts g"
  "sessionId (send f g) = sessionId g"
  "sequence (send f g) = sequence g"
  "ws (send f g) = ws g"
  "heartbeatAcked (send f g) = heartbeatAcked g"
  "pendingReconnects (send f g) = pendingReconnects g"
  by (simp_all add: send_def pendingReconnects_def)

lemma sendHeartbeat_frame:
  "destroyed (sendHeartbeat now g) = destroyed g"
  "connectCalls (sendHeartbeat now g) = connectCalls g"
  "isReconnecting (sendHeartbeat now g) = isReconnecting g"
  "reconnectAttempts (sendHeartbeat now g) = reconnectAttempts g"
  "sessionId (sendHeartbeat now g) = sessionId g"
  "sequence (sendHeartbeat now g) = sequence g"
  "ws (sendHeartbeat now g) = ws g"
  "heartbeatAcked (sendHeartbeat now g) = False"
  "pendingReconnects (sendHeartbeat now g) = pendingReconnects g"
  by (simp_all add: sendHeartbeat_def send_frame) (simp add: pendingReconnects_def)

lemma emit_frame:
  "destroyed (emit name payload g) = destroyed g"
  "connectCalls (emit name payload g) = connectCalls g"
  "isReconnecting (emit name payload g) = isReconnecting g"
  "sessionId (emit name payload g) = sessionId g"
  "sequence (emit name payload g) = sequence g"
  "sent (emit name payload g) = sent g"
  "ws (emit name payload g) = ws g"
  "pendingReconnects (emit name payload g) = pendingReconnects g"
  by (simp_all add: emit_def pendingReconnects_def)

lemma settle_frame:
  "destroyed (settle g) = destroyed g"
  "connectCalls (settle g) = connectCalls g"
  "isReconnecting (settle g) = isReconnecting g"
  "sessionId (settle g) = sessionId g"
  "sequence (settle g) = sequence g"
  "sent (settle g) = sent g"
  "ws (settle g) = ws g"
  "emitted (settle g) = emitted g"
  "pendingReconnects (settle g) = pendingReconnects g"
  by (simp_all add: settle_def pendingReconnects_def)

lemma handleCloseCode_frame:
  "destroyed (handleCloseCode code g) = destroyed g"
  "connectCalls (handleCloseCode code g) = connectCalls g"
  "isReconnecting (handleCloseCode code g) = isReconnecting g"
  "pendingReconnects (handleCloseCode code g) = pendingReconnects g"
  by (simp_all add: handleCloseCode_def pendingReconnects_def)

lemma scheduleReconnect_frame:
  "destroyed (scheduleReconnect cfg rand g) = destroyed g"
  "connectCalls (scheduleReconnect cfg rand g) = connectCalls g"
  "sessionId (scheduleReconnect cfg rand g) = sessionId g"
  "sequence (scheduleReconnect cfg rand g) = sequence g"
  "sent (scheduleReconnect cfg rand g) = sent g"
  "ws (scheduleReconnect cfg rand g) = ws g"
  by (simp_all add: scheduleReconnect_def Let_def)

lemma scheduleReconnect_inv:
  "reconnectInv g \<Longrightarrow> reconnectInv (scheduleReconnect cfg rand g)"
  by (auto simp add: reconnectInv_def scheduleReconnect_def Let_def pendingReconnects_def)

lemma scheduleReconnect_pending:
  "\<not> destroyed g \<Longrightarrow> \<not> isReconnecting g \<Longrightarrow> enat (reconnectAttempts g) < maxReconnectAttempts cfg \<Longrightarrow>
   pendingReconnects (scheduleReconnect cfg rand g) = pendingReconnects g + 1"
  by (simp add: scheduleReconnect_def Let_def pendingReconnects_def)

lemma startHeartbeat_frame:
  "destroyed (startHeartbeat rand iv g) = destroyed g"
  "connectCalls (startHeartbeat rand iv g) = connectCalls g"
  "isReconnecting (startHeartbeat rand iv g) = isReconnecting g"
  "sessionId (startHeartbeat rand iv g) = sessionId g"
  "sequence (startHeartbeat rand iv g) = sequence g"
  "sent (startHeartbeat rand iv g) = sent g"
  "ws (startHeartbeat rand iv g) = ws g"
  "pendingReconnects (startHeartbeat rand iv g) = pendingReconnects g"
  using stopHeartbeat_frame [of g]
  by (simp_all add: startHeartbeat_def Let_def pendingReconnects_def)

lemma handleHello_frame:
  "destroyed (case handleHello rand data g of Inl err \<Rightarrow> g | Inr g2 \<Rightarrow> g2) = destroyed g"
  "connectCalls (case handleHello rand data g of Inl err \<Rightarrow> g | Inr g2 \<Rightarrow> g2) = connectCalls g"
  "isReconnecting (case handleHello rand data g of Inl err \<Rightarrow> g | Inr g2 \<Rightarrow> g2) = isReconnecting g"
  "pendingReconnects (case handleHello rand data g of Inl err \<Rightarrow> g | Inr g2 \<Rightarrow> g2) = pendingReconnects g"
  "sequence (case handleHello rand data g of Inl err \<Rightarrow> g | Inr g2 \<Rightarrow> g2) = sequence g"
  by (simp_all add: handleHello_def Let_def sendResume_def sendIdentify_def send_frame
        startHeartbeat_frame split: sum.splits)

lemma heartbeatFirstFired_frame:
  "destroyed (heartbeatFirstFired now iv g) = destroyed g"
  "connectCalls (heartbeatFirstFired now iv g) = connectCalls g"
  "isReconnecting (heartbeatFirstFired now iv g) = isReconnecting g"
  "pendingReconnects (heartbeatFirstFired now iv g) = pendingReconnects g"
  using sendHeartbeat_frame [of now g]
  by (simp_all add: heartbeatFirstFired_def Let_def pendingReconnects_def)

lemma handleDispatch_frame:
  "destroyed (handleDispatch cfg p g) = destroyed g"
  "connectCalls (handleDispatch cfg p g) = connectCalls g"
  "isReconnecting (handleDispatch cfg p g) = isReconnecting g"
  "pendingReconnects (handleDispatch cfg p g) = pendingReconnects g"
  "sequence (handleDispatch cfg p g) = sequence g"
  by (simp_all add: handleDispatch_def Let_def settle_frame emit_frame split: option.splits)
     (simp_all add: emit_def pendingReconnects_def)

lemma reconnectInv_update:
  "reconnectInv (g\<lparr>sequence := q\<rparr>) = reconnectInv g"
  "reconnectInv (g\<lparr>sessionId := x\<rparr>) = reconnectInv g"
  "reconnectInv (g\<lparr>heartbeatAcked := a\<rparr>) = reconnectInv g"
  "reconnectInv (g\<lparr>lastPing := l\<rparr>) = reconnectInv g"
  "reconnectInv (g\<lparr>connectCalls := c\<rparr>) = reconnectInv g"
  "reconnectInv (g\<lparr>isConnecting := a\<rparr>) = reconnectInv g"
  "reconnectInv (g\<lparr>destroyed := a\<rparr>) = reconnectInv g"
  "reconnectInv (g\<lparr>ws := w\<rparr>) = reconnectInv g"
  "reconnectInv (g\<lparr>settled := a\<rparr>) = reconnectInv g"
  by (simp_all add: reconnectInv_def pendingReconnects_def)

lemma reconnectInv_frame:
  "reconnectInv (emit name payload g) = reconnectInv g"
  "reconnectInv (send f g) = reconnectInv g"
  "reconnectInv (settle g) = reconnectInv g"
  "reconnectInv (sendHeartbeat now g) = reconnectInv g"
  "reconnectInv (stopHeartbeat g) = reconnectInv g"
  "reconnectInv (cleanup g) = reconnectInv g"
  "reconnectInv (handleCloseCode code g) = reconnectInv g"
  "reconnectInv (case handleHello rand data g of Inl err \<Rightarrow> g | Inr g2 \<Rightarrow> g2) = reconnectInv g"
  "reconnectInv (heartbeatFirstFired now iv g) = reconnectInv g"
  "reconnectInv (handleDispatch cfg p g) = reconnectInv g"
  by (simp_all add: reconnectInv_def emit_frame send_frame settle_frame sendHeartbeat_frame
        stopHeartbeat_frame cleanup_frame handleCloseCode_frame handleHello_frame
        heartbeatFirstFired_frame handleDispatch_frame)

lemma heartbeatTick_inv: "reconnectInv g \<Longrightarrow> reconnectInv (heartbeatTick cfg rand now g)"
  by (simp add: heartbeatTick_def scheduleReconnect_inv reconnectInv_frame)

lemma heartbeatTick_frame:
  "destroyed (heartbeatTick cfg rand now g) = destroyed g"
  "connectCalls (heartbeatTick cfg rand now g) = connectCalls g"
  by (simp_all add: heartbeatTick_def scheduleReconnect_frame cleanup_frame sendHeartbeat_frame)

lemma handleMessage_frame:
  "destroyed (handleMessage cfg rand now raw g) = destroyed g"
  "connectCalls (handleMessage cfg rand now raw g) = connectCalls g"
proof -
  show "destroyed (handleMessage cfg rand now raw g) = destroyed g"
  proof (cases raw)
    case None
    then show ?thesis by (simp add: handleMessage_def)
  next
    case (Some p)
    then show ?thesis
      by (cases "pkt_op p")
         (simp_all add: handleMessage_def Let_def handleHello_frame sendHeartbeat_frame
            scheduleReconnect_frame cleanup_frame handleDispatch_frame emit_frame
            split: option.splits)
  qed
  show "connectCalls (handleMessage cfg rand now raw g) = connectCalls g"
  proof (cases raw)
    case None
    then show ?thesis by (simp add: handleMessage_def)
  next
    case (Some p)
    then show ?thesis
      by (cases "pkt_op p")
         (simp_all add: handleMessage_def Let_def handleHello_frame sendHeartbeat_frame
            scheduleReconnect_frame cleanup_frame handleDispatch_frame emit_frame
            split: option.splits)
  qed
qed

lemma handleMessage_inv:
  assumes "reconnectInv g"
  shows "reconnectInv (handleMessage cfg rand now raw g)"
proof (cases raw)
  case None
  with assms show ?thesis by (simp add: handleMessage_def)
next
  case (Some p)
  with assms show ?thesis
    by (cases "pkt_op p"; cases "pkt_s p")
       (simp_all add: handleMessage_def Let_def scheduleReconnect_inv reconnectInv_frame
          reconnectInv_update)
qed

lemma connect_inv: "reconnectInv g \<Longrightarrow> reconnectInv (connect g)"
  by (simp add: connect_def Let_def reconnectInv_frame reconnectInv_update)

lemma destroy_inv: "reconnectInv g \<Longrightarrow> reconnectInv (destroy g)"
  by (simp add: destroy_def reconnectInv_frame reconnectInv_update)

lemma destroy_frame:
  "destroyed (destroy g)"
  "connectCalls (destroy g) = connectCalls g"
  "pendingReconnects (destroy g) = pendingReconnects g"
  by (simp_all add: destroy_def cleanup_frame) (simp add: pendingReconnects_def)

lemma onClose_inv: "reconnectInv g \<Longrightarrow> reconnectInv (onClose cfg rand code reason g)"
  by (simp add: onClose_def Let_def scheduleReconnect_inv reconnectInv_frame reconnectInv_update)

lemma onClose_frame:
  "destroyed (onClose cfg rand code reason g) = destroyed g"
  "connectCalls (onClose cfg rand code reason g) = connectCalls g"
  by (simp_all add: onClose_def Let_def scheduleReconnect_frame settle_frame
        handleCloseCode_frame emit_frame stopHeartbeat_frame)

lemma filter_removeAt_other:
  assumes "i < length xs" and "\<not> P (xs ! i)"
  shows "filter P (removeAt i xs) = filter P xs"
proof -
  have "xs = take i xs @ xs ! i # drop (Suc i) xs"
    using assms(1) by (simp add: id_take_nth_drop)
  then have "filter P xs = filter P (take i xs) @ filter P (xs ! i # drop (Suc i) xs)"
    by (metis filter_append)
  with assms(2) show ?thesis by (simp add: removeAt_def)
qed

lemma filter_removeAt_hit:
  assumes "i < length xs" and "P (xs ! i)"
  shows "Suc (length (filter P (removeAt i xs))) = length (filter P xs)"
proof -
  have "xs = take i xs @ xs ! i # drop (Suc i) xs"
    using assms(1) by (simp add: id_take_nth_drop)
  then have "filter P xs = filter P (take i xs) @ filter P (xs ! i # drop (Suc i) xs)"
    by (metis filter_append)
  with assms(2) show ?thesis by (simp add: removeAt_def)
qed

lemma reconnectFired_inv:
  assumes "reconnectInv g" and "i < length (timers g)" and "timers g ! i = ReconnectTimer dl"
  shows "reconnectInv (reconnectFired (g\<lparr>timers := removeAt i (timers g)\<rparr>))"
proof -
  have "Suc (length (filter isReconnectTimer (removeAt i (timers g)))) =
        length (filter isReconnectTimer (timers g))"
    using assms(2,3) by (intro filter_removeAt_hit) simp_all
  with assms(1) have "reconnectInv (g\<lparr>timers := removeAt i (timers g), isReconnecting := False\<rparr>)"
    by (simp add: reconnectInv_def pendingReconnects_def split: if_splits)
  then show ?thesis
    by (simp add: reconnectFired_def Let_def connect_inv)
qed

lemma reconnectFired_frame:
  "destroyed g \<Longrightarrow> destroyed (reconnectFired g)"
  "destroyed g \<Longrightarrow> connectCalls (reconnectFired g) = connectCalls g"
  by (simp_all add: reconnectFired_def Let_def)

lemma fireTimer_inv:
  assumes "reconnectInv g"
  shows "reconnectInv (fireTimer cfg rand now i g)"
proof (cases "i < length (timers g)")
  case False
  with assms show ?thesis by (simp add: fireTimer_def)
next
  case True
  show ?thesis
  proof (cases "timers g ! i")
    case (ReconnectTimer dl)
    with True assms show ?thesis
      by (simp add: fireTimer_def reconnectFired_inv)
  next
    case (HeartbeatFirst dl iv)
    with True have "filter isReconnectTimer (removeAt i (timers g)) = filter isReconnectTimer (timers g)"
      by (intro filter_removeAt_other) simp_all
    with assms have "reconnectInv (g\<lparr>timers := removeAt i (timers g)\<rparr>)"
      by (simp add: reconnectInv_def pendingReconnects_def)
    with True HeartbeatFirst show ?thesis
      by (simp add: fireTimer_def reconnectInv_frame)
  next
    case (HeartbeatTick h iv)
    with True assms show ?thesis
      by (simp add: fireTimer_def heartbeatTick_inv)
  qed
qed

lemma fireTimer_frame:
  assumes "destroyed g"
  shows "destroyed (fireTimer cfg rand now i g) \<and> connectCalls (fireTimer cfg rand now i g) = connectCalls g"
proof (cases "i < length (timers g)")
  case False
  with assms show ?thesis by (simp add: fireTimer_def)
next
  case True
  with assms show ?thesis
    by (cases "timers g ! i")
       (simp_all add: fireTimer_def reconnectFired_frame heartbeatFirstFired_frame heartbeatTick_frame)
qed

lemma step_inv: "reconnectInv g \<Longrightarrow> reconnectInv (step cfg rand now ev g)"
  by (cases ev)
     (simp_all add: step_def connect_inv destroy_inv handleMessage_inv onClose_inv fireTimer_inv
        reconnectInv_update reconnectInv_frame)

lemma run_inv: "reconnectInv g \<Longrightarrow> reconnectInv (run cfg evs g)"
  by (induction cfg evs g rule: run.induct) (simp_all add: step_inv)

lemma initial_inv: "reconnectInv initial"
  by (simp add: reconnectInv_def pendingReconnects_def initial_def)

lemma step_destroyed:
  assumes "destroyed g" and "ev \<noteq> Connect"
  shows "destroyed (step cfg rand now ev g) \<and> connectCalls (step cfg rand now ev g) = connectCalls g"
  using assms fireTimer_frame [OF assms(1), of cfg rand now]
  by (cases ev)
     (simp_all add: step_def destroy_frame handleMessage_frame onClose_frame send_frame emit_frame)

lemma run_destroyed:
  assumes "destroyed g" and "\<forall>e \<in> set evs. snd (snd e) \<noteq> Connect"
  shows "destroyed (run cfg evs g) \<and> connectCalls (run cfg evs g) = connectCalls g"
  using assms
proof (induction cfg evs g rule: run.induct)
  case (1 cfg g)
  then show ?case by simp
next
  case (2 cfg rand now ev rest g)
  from 2(2,3) have s: "destroyed (step cfg rand now ev g) \<and> connectCalls (step cfg rand now ev g) = connectCalls g"
    by (intro step_destroyed) simp_all
  with 2(1) [of ] 2(3) show ?case by simp
qed

section \<open>Dispatch and the raw channel\<close>

text \<open>
  Claim C1: every dispatched event with a non-empty name is emitted on the \<open>raw\<close> channel,
  events on the ignore-list included. The source documents the channel that way (``fired for
  every event regardless of name'', ``Always emit the raw event''), but \<open>_handleDispatch\<close>
  returns at the ignore-list check, before the raw emission: a dispatch of the ignored event
  \<open>TYPING_START\<close> emits nothing at all.
\<close>

theorem ignored_event_not_on_raw:
  "emitted (handleDispatch \<lparr>reconnectDelay = Fin 2 0, maxReconnectAttempts = \<infinity>, ignoredGatewayEvents = Some [''TYPING_START'']\<rparr>
      \<lparr>pkt_op = Dispatch, pkt_d = JNull, pkt_s = Some 1, pkt_t = Some ''TYPING_START''\<rparr> initial) = []"
  by (simp add: handleDispatch_def ignored_def initial_def)

text \<open>
  What \<open>_handleDispatch\<close> emits: for a name that is not ignored the raw emission comes
  first, then the named one (RESUMED carries no body there).
\<close>

lemma handleDispatch_emitted:
  assumes "pkt_t p = Some eventName" and "eventName \<noteq> []"
  shows "emitted (handleDispatch cfg p g) =
     (if ignored cfg eventName then emitted g
      else emitted g @ [(''raw'', rawPayload eventName (pkt_d p)),
                        (eventName, if eventName = ''RESUMED'' then JUndefined else pkt_d p)])"
  using assms by (simp add: handleDispatch_def emit_def settle_frame Let_def)

section \<open>The sequence watermark\<close>

text \<open>
  Claim C2 says that processing a frame with a sequence number never makes the stored
  sequence smaller. \<open>_handleMessage\<close> assigns the number of the frame without comparing: with 5
  stored, a heartbeat acknowledgement carrying 3 leaves 3.
\<close>

theorem sequence_can_decrease:
  "sequence (handleMessage \<lparr>reconnectDelay = Fin 2 0, maxReconnectAttempts = \<infinity>, ignoredGatewayEvents = None\<rparr> (Fin 0 0) 1000
      (Some \<lparr>pkt_op = HeartbeatAck, pkt_d = JNull, pkt_s = Some 3, pkt_t = None\<rparr>) (initial\<lparr>sequence := 5\<rparr>))
   < sequence (initial\<lparr>sequence := 5\<rparr>)"
  by (simp add: handleMessage_def Let_def emit_def initial_def)

text \<open>
  Claim C2, as amended: for every inbound frame carrying a sequence number \<open>q\<close>, processing
  that frame sets the stored sequence to \<open>q\<close>, whatever it was before (and to 0 when the frame
  is a non-resumable invalid-session signal, which clears the session); the stored sequence is
  therefore non-decreasing exactly as far as the numbers sent by the server are.
\<close>

theorem sequence_follows_frame:
  assumes "pkt_s p = Some q"
  shows "sequence (handleMessage cfg rand now (Some p) g) =
           (if pkt_op p = InvalidSession \<and> \<not> truthy (pkt_d p) then 0 else q)"
  using assms
  by (cases "pkt_op p")
     (simp_all add: handleMessage_def Let_def emit_def handleHello_frame sendHeartbeat_frame
        scheduleReconnect_frame cleanup_frame handleDispatch_frame)

theorem sequence_follows_frame_witness:
  "sequence (handleMessage \<lparr>reconnectDelay = Fin 2 0, maxReconnectAttempts = \<infinity>, ignoredGatewayEvents = None\<rparr> (Fin 0 0) 1000
      (Some \<lparr>pkt_op = Dispatch, pkt_d = JNull, pkt_s = Some 8, pkt_t = Some ''TYPING_START''\<rparr>)
      (initial\<lparr>sequence := 5\<rparr>)) = 8"
  using sequence_follows_frame
     [of "\<lparr>pkt_op = Dispatch, pkt_d = JNull, pkt_s = Some 8, pkt_t = Some ''TYPING_START''\<rparr>" 8
         "\<lparr>reconnectDelay = Fin 2 0, maxReconnectAttempts = \<infinity>, ignoredGatewayEvents = None\<rparr>" "Fin 0 0" 1000 "initial\<lparr>sequence := 5\<rparr>"]
  by simp

section \<open>Heartbeats\<close>

text \<open>
  Claim C3 says that no send path sends a heartbeat while the previous one is
  unacknowledged, the server-requested heartbeat included. After the first heartbeat of a
  connection, and with no acknowledgement received, a heartbeat request of the server makes the
  client send a second heartbeat while the first is still outstanding.
\<close>

theorem requested_heartbeat_while_unacked:
  "\<not> heartbeatAcked (run \<lparr>reconnectDelay = Fin 2 0, maxReconnectAttempts = \<infinity>, ignoredGatewayEvents = None\<rparr>
     [(Fin 0 0, 0, Connect), (Fin 0 0, 1, WsOpen),
      (Fin 1 (- 1), 2, WsMessage (Some \<lparr>pkt_op = Hello, pkt_d = JObj [(''heartbeat_interval'', JNum 1000)], pkt_s = None, pkt_t = None\<rparr>)),
      (Fin 0 0, 500, TimerFired 0)] initial) \<and>
   sent (run \<lparr>reconnectDelay = Fin 2 0, maxReconnectAttempts = \<infinity>, ignoredGatewayEvents = None\<rparr>
     [(Fin 0 0, 0, Connect), (Fin 0 0, 1, WsOpen),
      (Fin 1 (- 1), 2, WsMessage (Some \<lparr>pkt_op = Hello, pkt_d = JObj [(''heartbeat_interval'', JNum 1000)], pkt_s = None, pkt_t = None\<rparr>)),
      (Fin 0 0, 500, TimerFired 0),
      (Fin 0 0, 600, WsMessage (Some \<lparr>pkt_op = Heartbeat, pkt_d = JNull, pkt_s = None, pkt_t = None\<rparr>))] initial)
   = [IdentifyFrame, HeartbeatFrame None, HeartbeatFrame None]"
  by (simp add: step_def connect_def cleanup_def stopHeartbeat_def initial_def handleMessage_def
        handleHello_def startHeartbeat_def sendIdentify_def sendResume_def send_def fireTimer_def
        removeAt_def heartbeatFirstFired_def sendHeartbeat_def Let_def)

text \<open>
  Claim C3, as amended: on an interval tick with the prior heartbeat unacknowledged no
  heartbeat frame is sent; the transport is torn down and a reconnect is scheduled instead
  (when the client is not destroyed, no reconnect is pending and attempts remain). On a tick
  with the prior heartbeat acknowledged and the transport open, one heartbeat is sent and is
  now outstanding. The guard is on the interval tick only: a heartbeat requested by the server
  is sent at once on an open transport, whether or not the previous one was acknowledged.
\<close>

theorem heartbeat_tick_guard:
  "(\<not> heartbeatAcked g \<longrightarrow>
      sent (heartbeatTick cfg rand now g) = sent g \<and>
      ws (heartbeatTick cfg rand now g) = None \<and>
      (\<not> destroyed g \<and> \<not> isReconnecting g \<and> enat (reconnectAttempts g) < maxReconnectAttempts cfg \<longrightarrow>
         pendingReconnects (heartbeatTick cfg rand now g) = pendingReconnects g + 1)) \<and>
   (heartbeatAcked g \<and> ws g = Some OPEN \<longrightarrow>
      sent (heartbeatTick cfg rand now g) =
        sent g @ [HeartbeatFrame (if sequence g = 0 then None else Some (sequence g))] \<and>
      \<not> heartbeatAcked (heartbeatTick cfg rand now g)) \<and>
   (pkt_op p = Heartbeat \<and> pkt_s p = None \<and> ws g = Some OPEN \<longrightarrow>
      sent (handleMessage cfg rand now (Some p) g) =
        sent g @ [HeartbeatFrame (if sequence g = 0 then None else Some (sequence g))])"
proof -
  have a: "pendingReconnects (scheduleReconnect cfg rand (cleanup g)) = pendingReconnects g + 1"
    if "\<not> destroyed g" "\<not> isReconnecting g" "enat (reconnectAttempts g) < maxReconnectAttempts cfg"
    using that scheduleReconnect_pending [of "cleanup g" cfg rand] by (simp add: cleanup_frame)
  show ?thesis
    using a
    by (simp add: heartbeatTick_def scheduleReconnect_frame cleanup_frame handleMessage_def
          sendHeartbeat_def send_def)
qed

theorem heartbeat_tick_guard_witness:
  "sent (heartbeatTick \<lparr>reconnectDelay = Fin 2 0, maxReconnectAttempts = \<infinity>, ignoredGatewayEvents = None\<rparr> (Fin 0 0) 900
       (initial\<lparr>ws := Some OPEN, heartbeatAcked := False, sent := [HeartbeatFrame None]\<rparr>)) = [HeartbeatFrame None] \<and>
   ws (heartbeatTick \<lparr>reconnectDelay = Fin 2 0, maxReconnectAttempts = \<infinity>, ignoredGatewayEvents = None\<rparr> (Fin 0 0) 900
       (initial\<lparr>ws := Some OPEN, heartbeatAcked := False, sent := [HeartbeatFrame None]\<rparr>)) = None \<and>
   pendingReconnects (heartbeatTick \<lparr>reconnectDelay = Fin 2 0, maxReconnectAttempts = \<infinity>, ignoredGatewayEvents = None\<rparr> (Fin 0 0) 900
       (initial\<lparr>ws := Some OPEN, heartbeatAcked := False, sent := [HeartbeatFrame None]\<rparr>)) = 1 \<and>
   sent (heartbeatTick \<lparr>reconnectDelay = Fin 2 0, maxReconnectAttempts = \<infinity>, ignoredGatewayEvents = None\<rparr> (Fin 0 0) 900
       (initial\<lparr>ws := Some OPEN\<rparr>)) = [HeartbeatFrame None] \<and>
   sent (handleMessage \<lparr>reconnectDelay = Fin 2 0, maxReconnectAttempts = \<infinity>, ignoredGatewayEvents = None\<rparr> (Fin 0 0) 900
       (Some \<lparr>pkt_op = Heartbeat, pkt_d = JNull, pkt_s = None, pkt_t = None\<rparr>)
       (initial\<lparr>ws := Some OPEN\<rparr>)) = [HeartbeatFrame None]"
  using heartbeat_tick_guard
          [of "initial\<lparr>ws := Some OPEN, heartbeatAcked := False, sent := [HeartbeatFrame None]\<rparr>"
              "\<lparr>reconnectDelay = Fin 2 0, maxReconnectAttempts = \<infinity>, ignoredGatewayEvents = None\<rparr>" "Fin 0 0" 900
              "\<lparr>pkt_op = Heartbeat, pkt_d = JNull, pkt_s = None, pkt_t = None\<rparr>"]
        heartbeat_tick_guard
          [of "initial\<lparr>ws := Some OPEN\<rparr>"
              "\<lparr>reconnectDelay = Fin 2 0, maxReconnectAttempts = \<infinity>, ignoredGatewayEvents = None\<rparr>" "Fin 0 0" 900
              "\<lparr>pkt_op = Heartbeat, pkt_d = JNull, pkt_s = None, pkt_t = None\<rparr>"]
  by (simp add: initial_def pendingReconnects_def)

section \<open>Rounding\<close>

lemma roundShift_err:
  assumes "0 < k"
  shows "\<bar>roundShift m k * 2 ^ k - m\<bar> \<le> 2 ^ (k - 1)"
proof -
  define q r h where "q = m div 2 ^ k" and "r = m mod 2 ^ k" and "h = (2::int) ^ (k - 1)"
  have pk: "(2::int) ^ k = 2 * h"
    using assms by (cases k) (simp_all add: h_def)
  have "m = (m div 2 ^ k) * 2 ^ k + m mod 2 ^ k"
    by (rule div_mult_mod_eq [symmetric])
  then have m: "m = q * (2 * h) + r"
    by (simp only: q_def r_def pk)
  have "0 \<le> m mod 2 ^ k" "m mod 2 ^ k < 2 ^ k"
    by simp_all
  then have r: "0 \<le> r" "r < 2 * h"
    by (simp_all only: r_def pk)
  have "roundShift m k = (if r < h then q else if h < r then q + 1 else if even q then q else q + 1)"
    by (simp add: roundShift_def Let_def q_def r_def h_def)
  then show ?thesis
    unfolding pk h_def [symmetric] using m r by (auto simp add: algebra_simps)
qed

lemma roundShift_nonneg: "0 \<le> m \<Longrightarrow> 0 \<le> roundShift m k"
  by (simp add: roundShift_def Let_def pos_imp_zdiv_nonneg_iff)


lemma rounded_err:
  assumes "rounded m e = (p, q)"
  shows "\<bar>real_of_int p * 2 powi q - real_of_int m * 2 powi e\<bar>
           \<le> \<bar>real_of_int m * 2 powi e\<bar> / 2 ^ 53 + 2 powi (- 1075)"
proof -
  define k where "k = max (bitlen \<bar>m\<bar> - 53) (- 1074 - e)"
  show ?thesis
  proof (cases "k \<le> 0")
    case True
    with assms have "p = m" "q = e"
      by (auto simp add: rounded_def k_def Let_def split: if_splits)
    then show ?thesis by simp
  next
    case False
    then have k: "0 < k" by simp
    with assms have p: "p = roundShift m (nat k)" and q: "q = e + k"
      by (auto simp add: rounded_def k_def Let_def split: if_splits)
    have "\<bar>p * 2 ^ nat k - m\<bar> \<le> 2 ^ (nat k - 1)"
      unfolding p using k by (intro roundShift_err) simp
    then have "real_of_int \<bar>p * 2 ^ nat k - m\<bar> \<le> real_of_int (2 ^ (nat k - 1))"
      by (rule of_int_le_iff [THEN iffD2])
    then have i: "\<bar>real_of_int p * 2 ^ nat k - real_of_int m\<bar> \<le> 2 ^ (nat k - 1)"
      by simp
    have pk: "(2::real) powi k = 2 ^ nat k"
      using k by (simp add: power_int_nonneg_exp)
    have pk1: "(2::real) powi (k - 1) = 2 ^ (nat k - 1)"
      using k by (simp add: power_int_nonneg_exp nat_diff_distrib)
    have "real_of_int p * 2 powi q - real_of_int m * 2 powi e =
          (real_of_int p * 2 ^ nat k - real_of_int m) * 2 powi e"
      by (simp add: q power_int_add pk algebra_simps)
    then have "\<bar>real_of_int p * 2 powi q - real_of_int m * 2 powi e\<bar> =
          \<bar>real_of_int p * 2 ^ nat k - real_of_int m\<bar> * 2 powi e"
      by (simp add: abs_mult)
    also have "\<dots> \<le> 2 powi (k - 1) * 2 powi e"
      using i by (intro mult_right_mono) (simp_all add: pk1)
    finally have D: "\<bar>real_of_int p * 2 powi q - real_of_int m * 2 powi e\<bar> \<le> 2 powi (k - 1) * 2 powi e" .
    show ?thesis
    proof (cases "- 1074 - e \<le> bitlen \<bar>m\<bar> - 53")
      case True
      then have kk: "k = bitlen \<bar>m\<bar> - 53"
        by (simp add: k_def)
      with k have m0: "0 < \<bar>m\<bar>"
        by (cases "m = 0") auto
      from bitlen_bounds [OF m0] have "2 ^ nat (bitlen \<bar>m\<bar> - 1) \<le> \<bar>m\<bar>" ..
      then have "real_of_int (2 ^ nat (bitlen \<bar>m\<bar> - 1)) \<le> real_of_int \<bar>m\<bar>"
        by (rule of_int_le_iff [THEN iffD2])
      moreover have "nat (bitlen \<bar>m\<bar> - 1) = (nat k - 1) + 53"
        using k kk by simp
      ultimately have "(2::real) ^ (nat k - 1) * 2 ^ 53 \<le> \<bar>real_of_int m\<bar>"
        by (simp add: power_add)
      then have "(2::real) powi (k - 1) \<le> \<bar>real_of_int m\<bar> / 2 ^ 53"
        by (simp add: pk1 field_simps)
      then have "2 powi (k - 1) * 2 powi e \<le> \<bar>real_of_int m\<bar> / 2 ^ 53 * 2 powi e"
        by (intro mult_right_mono) simp_all
      also have "\<dots> = \<bar>real_of_int m * 2 powi e\<bar> / 2 ^ 53"
        by (simp add: abs_mult)
      finally show ?thesis
        using D by simp
    next
      case False
      then have kk: "k = - 1074 - e"
        by (simp add: k_def)
      have "(2::real) powi (k - 1) * 2 powi e = 2 powi (k - 1 + e)"
        by (simp add: power_int_add)
      also have "\<dots> = 2 powi (- 1075)"
        by (simp add: kk)
      finally show ?thesis
        using D by simp
    qed
  qed
qed

lemma rounded_nonneg:
  assumes "rounded m e = (p, q)" and "0 \<le> m"
  shows "0 \<le> p"
  using assms by (auto simp add: rounded_def Let_def roundShift_nonneg split: if_splits)


lemma round53_Fin:
  assumes "0 \<le> m" and "real_of_int m * 2 powi e \<le> 2 ^ 1000"
  shows "\<exists>p q. round53 m e = Fin p q \<and> 0 \<le> p \<and>
           \<bar>valueOf (Fin p q) - real_of_int m * 2 powi e\<bar>
             \<le> real_of_int m * 2 powi e / 2 ^ 53 + 2 powi (- 1075)"
proof -
  obtain p q where pq: "rounded m e = (p, q)"
    by (cases "rounded m e")
  let ?x = "real_of_int m * 2 powi e"
  have x0: "0 \<le> ?x"
    using assms(1) by simp
  have p0: "0 \<le> p"
    using pq assms(1) by (rule rounded_nonneg)
  have err: "\<bar>real_of_int p * 2 powi q - ?x\<bar> \<le> ?x / 2 ^ 53 + 2 powi (- 1075)"
    using rounded_err [OF pq] x0 by simp
  show ?thesis
  proof (cases "p = 0")
    case True
    then have "round53 m e = Fin 0 0"
      by (simp add: round53_def pq)
    with err True show ?thesis by simp
  next
    case False
    with p0 have ppos: "0 < p" by simp
    have small: "\<not> 1024 < bitlen \<bar>p\<bar> + q"
    proof
      assume big: "1024 < bitlen \<bar>p\<bar> + q"
      from bitlen_bounds [OF ppos] have "2 ^ nat (bitlen p - 1) \<le> p" ..
      then have "real_of_int (2 ^ nat (bitlen p - 1)) \<le> real_of_int p"
        by (rule of_int_le_iff [THEN iffD2])
      moreover have "1 \<le> bitlen p"
        using ppos bitlen_eq_zero_iff [of p] bitlen_nonneg [of p] by (cases "bitlen p = 0") auto
      ultimately have "(2::real) powi (bitlen p - 1) \<le> real_of_int p"
        by (simp add: power_int_nonneg_exp)
      then have "(2::real) powi (bitlen p - 1) * 2 powi q \<le> real_of_int p * 2 powi q"
        by (intro mult_right_mono) simp_all
      then have a: "(2::real) powi (bitlen p - 1 + q) \<le> real_of_int p * 2 powi q"
        by (simp add: power_int_add)
      have "(2::real) powi 1024 \<le> 2 powi (bitlen p - 1 + q)"
        using big ppos by (intro power_int_increasing) simp_all
      with a have b: "(2::real) ^ 1024 \<le> real_of_int p * 2 powi q"
        by simp
      have "(2::real) powi (- 1075) \<le> 1"
        by (simp add: power_int_minus field_simps)
      moreover have "?x / 2 ^ 53 \<le> ?x"
        using x0 by (simp add: field_simps)
      ultimately have "real_of_int p * 2 powi q \<le> 2 ^ 1000 + 2 ^ 1000 + 1"
        using err assms(2) by linarith
      with b show False by simp
    qed
    with False ppos have "round53 m e = Fin p q"
      by (simp add: round53_def pq)
    with err p0 show ?thesis by simp
  qed
qed

lemma roundShift_0: "roundShift 0 k = 0"
  by (simp add: roundShift_def)

lemma round53_0: "round53 0 e = Fin 0 0"
  by (simp add: round53_def rounded_def Let_def roundShift_0)

lemma align:
  assumes "e0 \<le> e" and "M = m * 2 ^ nat (e - e0)"
  shows "real_of_int M * 2 powi e0 = real_of_int m * 2 powi e"
proof -
  have "(2::real) ^ nat (e - e0) = 2 powi (e - e0)"
    using assms(1) by (simp add: power_int_nonneg_exp)
  then have "real_of_int M * 2 powi e0 = real_of_int m * (2 powi (e - e0) * 2 powi e0)"
    by (simp add: assms(2))
  also have "2 powi (e - e0) * (2::real) powi e0 = 2 powi e"
    by (simp add: power_int_add [symmetric])
  finally show ?thesis .
qed

lemma dmul_Fin:
  assumes "0 \<le> m" and "0 \<le> n"
    and "valueOf (Fin m e) * valueOf (Fin n f) \<le> 2 ^ 1000"
  shows "\<exists>p q. dmul (Fin m e) (Fin n f) = Fin p q \<and> 0 \<le> p \<and>
           \<bar>valueOf (Fin p q) - valueOf (Fin m e) * valueOf (Fin n f)\<bar>
             \<le> valueOf (Fin m e) * valueOf (Fin n f) / 2 ^ 53 + 2 powi (- 1075)"
proof -
  have x: "real_of_int (m * n) * 2 powi (e + f) = valueOf (Fin m e) * valueOf (Fin n f)"
    by (simp add: power_int_add)
  have "0 \<le> m * n"
    using assms(1,2) by simp
  from round53_Fin [OF this, of "e + f"] assms(3) show ?thesis
    unfolding x by simp
qed

lemma dadd_Fin:
  assumes "0 \<le> m" and "0 \<le> n"
    and "valueOf (Fin m e) + valueOf (Fin n f) \<le> 2 ^ 1000"
  shows "\<exists>p q. dadd (Fin m e) (Fin n f) = Fin p q \<and> 0 \<le> p \<and>
           \<bar>valueOf (Fin p q) - (valueOf (Fin m e) + valueOf (Fin n f))\<bar>
             \<le> (valueOf (Fin m e) + valueOf (Fin n f)) / 2 ^ 53 + 2 powi (- 1075)"
proof -
  define e0 where "e0 = min e f"
  define M where "M = m * 2 ^ nat (e - e0)"
  define N where "N = n * 2 ^ nat (f - e0)"
  have a: "real_of_int M * 2 powi e0 = real_of_int m * 2 powi e"
    and b: "real_of_int N * 2 powi e0 = real_of_int n * 2 powi f"
    by (rule align; simp add: e0_def M_def N_def)+
  have "real_of_int (M + N) * 2 powi e0 = real_of_int M * 2 powi e0 + real_of_int N * 2 powi e0"
    by (simp add: algebra_simps)
  then have x: "real_of_int (M + N) * 2 powi e0 = valueOf (Fin m e) + valueOf (Fin n f)"
    by (simp only: a b valueOf.simps)
  have "0 \<le> M + N"
    using assms(1,2) by (simp add: M_def N_def)
  from round53_Fin [OF this, of e0] assms(3) have
    "\<exists>p q. round53 (M + N) e0 = Fin p q \<and> 0 \<le> p \<and>
       \<bar>valueOf (Fin p q) - (valueOf (Fin m e) + valueOf (Fin n f))\<bar>
         \<le> (valueOf (Fin m e) + valueOf (Fin n f)) / 2 ^ 53 + 2 powi (- 1075)"
    unfolding x by simp
  moreover have "dadd (Fin m e) (Fin n f) = round53 (M + N) e0"
    by (simp add: e0_def M_def N_def Let_def)
  ultimately show ?thesis by simp
qed

lemma dmin_Fin:
  "dmin (Fin m e) (Fin n f) = (if valueOf (Fin m e) \<le> valueOf (Fin n f) then Fin m e else Fin n f)"
proof -
  define e0 where "e0 = min e f"
  define M where "M = m * 2 ^ nat (e - e0)"
  define N where "N = n * 2 ^ nat (f - e0)"
  have a: "real_of_int M * 2 powi e0 = real_of_int m * 2 powi e"
    and b: "real_of_int N * 2 powi e0 = real_of_int n * 2 powi f"
    by (rule align; simp add: e0_def M_def N_def)+
  have "(M \<le> N) = (real_of_int M \<le> real_of_int N)"
    by simp
  also have "\<dots> = (real_of_int M * 2 powi e0 \<le> real_of_int N * 2 powi e0)"
  proof -
    have "\<not> (2::real) powi e0 < 0"
      by (simp add: not_less)
    then show ?thesis
      by (simp add: mult_le_cancel_right)
  qed
  also have "\<dots> = (valueOf (Fin m e) \<le> valueOf (Fin n f))"
    by (simp only: a b valueOf.simps)
  finally have "(M \<le> N) = (valueOf (Fin m e) \<le> valueOf (Fin n f))" .
  moreover have "dmin (Fin m e) (Fin n f) = (if M \<le> N then Fin m e else Fin n f)"
    by (simp add: e0_def M_def N_def Let_def)
  ultimately show ?thesis by simp
qed

lemma backoff_value:
  assumes "0 \<le> m" and "bitlen m \<le> 53" and "- 1074 \<le> e"
    and "k < 1024 \<or> 60 \<le> 2 ^ k * valueOf (Fin m e)"
  shows "\<exists>p q. backoff (Suc k) (Fin m e) = Fin p q \<and> 0 \<le> p \<and>
           valueOf (Fin p q) = min (2 ^ k * valueOf (Fin m e)) 60"
proof (cases "m = 0")
  case True
  then have "backoff (Suc k) (Fin m e) = Fin 0 0"
    using assms(4) by (simp add: backoff_def mathPow2_def round53_0 dmin_Fin del: dmin.simps)
  with True show ?thesis by simp
next
  case False
  with assms(1) have mpos: "0 < m" by simp
  have v60: "valueOf (Fin 60 0) = 60" by simp
  show ?thesis
  proof (cases "k \<le> 1023")
    case True
    have r: "rounded m (int k + e) = (m, int k + e)"
      using assms(2,3) mpos by (simp add: rounded_def Let_def)
    have val: "real_of_int m * 2 powi (int k + e) = 2 ^ k * valueOf (Fin m e)"
      by (simp add: power_int_add)
    show ?thesis
    proof (cases "1024 < bitlen \<bar>m\<bar> + (int k + e)")
      case over: True
      then have "backoff (Suc k) (Fin m e) = Fin 60 0"
        using True mpos r by (simp add: backoff_def mathPow2_def round53_def)
      moreover have "60 \<le> 2 ^ k * valueOf (Fin m e)"
      proof -
        from bitlen_bounds [OF mpos] have "2 ^ nat (bitlen m - 1) \<le> m" ..
        then have "real_of_int (2 ^ nat (bitlen m - 1)) \<le> real_of_int m"
          by (rule of_int_le_iff [THEN iffD2])
        moreover have "1 \<le> bitlen m"
          using mpos bitlen_eq_zero_iff [of m] bitlen_nonneg [of m] by (cases "bitlen m = 0") auto
        ultimately have "(2::real) powi (bitlen m - 1) \<le> real_of_int m"
          by (simp add: power_int_nonneg_exp)
        then have "(2::real) powi (bitlen m - 1) * 2 powi (int k + e) \<le> real_of_int m * 2 powi (int k + e)"
          by (intro mult_right_mono) simp_all
        then have a: "(2::real) powi (bitlen m - 1 + (int k + e)) \<le> real_of_int m * 2 powi (int k + e)"
          by (simp add: power_int_add)
        have "(2::real) powi 1024 \<le> 2 powi (bitlen m - 1 + (int k + e))"
          using over mpos by (intro power_int_increasing) simp_all
        with a have "(2::real) ^ 1024 \<le> 2 ^ k * valueOf (Fin m e)"
          unfolding val by simp
        moreover have "(60::real) \<le> 2 ^ 1024" by simp
        ultimately show ?thesis by linarith
      qed
      ultimately show ?thesis by simp
    next
      case False
      then have "dmul (mathPow2 k) (Fin m e) = Fin m (int k + e)"
        using True mpos r by (simp add: mathPow2_def round53_def)
      then have "backoff (Suc k) (Fin m e) =
                 (if valueOf (Fin m (int k + e)) \<le> valueOf (Fin 60 0) then Fin m (int k + e) else Fin 60 0)"
        by (simp add: backoff_def dmin_Fin del: valueOf.simps dmin.simps)
      moreover have val': "valueOf (Fin m (int k + e)) = 2 ^ k * valueOf (Fin m e)"
        by (simp add: power_int_add)
      ultimately show ?thesis
        using mpos
        by (cases "2 ^ k * valueOf (Fin m e) \<le> 60")
           (simp_all add: val' v60 min_def del: valueOf.simps)
    qed
  next
    case False
    then have "backoff (Suc k) (Fin m e) = Fin 60 0"
      using mpos by (simp add: backoff_def mathPow2_def)
    moreover have "60 \<le> 2 ^ k * valueOf (Fin m e)"
      using assms(4) False by simp
    ultimately show ?thesis by simp
  qed
qed


lemma tiny: "(2::real) powi (- 1075) = 1 / 2 ^ 1075"
  by (simp add: power_int_minus field_simps)

lemma delay_arith:
  fixes b x1 v1 x2 vj vs d A :: real
  assumes "0 \<le> b" and "b \<le> 60"
    and "0 \<le> x1" and "x1 \<le> 3 / 10"
    and "\<bar>v1 - x1\<bar> \<le> x1 / 2 ^ 53 + A" and "0 \<le> v1"
    and "x2 = v1 * b"
    and "\<bar>vj - x2\<bar> \<le> x2 / 2 ^ 53 + A" and "0 \<le> vj"
    and "\<bar>vs - (b + vj)\<bar> \<le> (b + vj) / 2 ^ 53 + A" and "0 \<le> vs"
    and "\<bar>d - vs * 1000\<bar> \<le> vs * 1000 / 2 ^ 53 + A"
    and "0 \<le> A" and "A \<le> 1 / 2 ^ 1075"
  shows "1000 * b * (1 - 1 / 2 ^ 52) - 1 / 2 ^ 1000 \<le> d"
    and "d \<le> 1300 * b * (1 + 1 / 2 ^ 50) + 1 / 2 ^ 1000"
    and "x2 \<le> 60" and "vj \<le> 61" and "vs \<le> 200"
proof -
  have A1: "A \<le> 1 / 2 ^ 60" and A2: "3000 * A \<le> 1 / 2 ^ 1000"
    using assms(14) by simp_all
  have v1: "v1 \<le> 3 / 10 + 1 / 2 ^ 54"
    using assms(3,4,5) A1 by (simp add: abs_le_iff)
  have "v1 * b \<le> (3 / 10 + 1 / 2 ^ 54) * b"
    using v1 assms(1) by (rule mult_right_mono)
  then have x2: "x2 \<le> (3 / 10 + 1 / 2 ^ 54) * b"
    by (simp add: assms(7))
  have x20: "0 \<le> x2"
    using assms(1,6,7) by simp
  have vj: "vj \<le> x2 + x2 / 2 ^ 53 + A"
    using assms(8) by (simp add: abs_le_iff)
  have vs: "vs \<le> (b + vj) + (b + vj) / 2 ^ 53 + A" "(b + vj) - (b + vj) / 2 ^ 53 - A \<le> vs"
    using assms(10) by (simp_all add: abs_le_iff)
  have d: "d \<le> vs * 1000 + vs * 1000 / 2 ^ 53 + A" "vs * 1000 - vs * 1000 / 2 ^ 53 - A \<le> d"
    using assms(12) by (simp_all add: abs_le_iff)
  show "x2 \<le> 60"
    using x2 assms(1,2) by simp
  show vj61: "vj \<le> 61"
    using vj x2 x20 assms(1,2) A1 by simp
  show "vs \<le> 200"
    using vs(1) vj61 assms(1,2,9) A1 by (simp add: add_divide_distrib)
  show "1000 * b * (1 - 1 / 2 ^ 52) - 1 / 2 ^ 1000 \<le> d"
    using d(2) vs(2) assms(1,9,13) A2 by (simp add: add_divide_distrib)
  show "d \<le> 1300 * b * (1 + 1 / 2 ^ 50) + 1 / 2 ^ 1000"
    using d(1) vs(1) vj x2 x20 assms(1,13) A2 by (simp add: add_divide_distrib)
qed


lemma big: "(200000::real) \<le> 2 ^ 1000"
  by simp

lemma delayMs_Fin:
  assumes "0 \<le> r" and "valueOf (Fin r s) < 1"
    and "0 \<le> p" and "valueOf (Fin p q) \<le> 60"
  shows "\<exists>md ed.
           dmul (dadd (Fin p q) (dmul (dmul (Fin r s) (Fin 5404319552844595 (- 54))) (Fin p q)))
             (Fin 1000 0) = Fin md ed \<and>
           1000 * valueOf (Fin p q) * (1 - 1 / 2 ^ 52) - 1 / 2 ^ 1000 \<le> valueOf (Fin md ed) \<and>
           valueOf (Fin md ed) \<le> 1300 * valueOf (Fin p q) * (1 + 1 / 2 ^ 50) + 1 / 2 ^ 1000"
proof -
  define rv where "rv = valueOf (Fin r s)"
  define c where "c = valueOf (Fin 5404319552844595 (- 54))"
  define b where "b = valueOf (Fin p q)"
  define A where "A = (2::real) powi (- 1075)"
  have A: "0 \<le> A" "A \<le> 1 / 2 ^ 1075"
    by (simp_all add: A_def tiny)
  have A60: "A \<le> 1 / 2 ^ 60"
    using A(2) by simp
  have rv: "0 \<le> rv" "rv < 1"
    using assms(1,2) by (simp_all add: rv_def)
  have c: "0 \<le> c" "c \<le> 3 / 10"
    by (simp_all add: c_def)
  have b: "0 \<le> b" "b \<le> 60"
    using assms(3,4) by (simp_all add: b_def)
  have x1: "0 \<le> rv * c" "rv * c \<le> 3 / 10"
  proof -
    show "0 \<le> rv * c" using rv(1) c(1) by simp
    have "rv * c \<le> 1 * c" using rv c(1) by (intro mult_right_mono) simp_all
    with c(2) show "rv * c \<le> 3 / 10" by simp
  qed
  have "rv * c \<le> 2 ^ 1000"
    using x1(2) big by linarith
  from dmul_Fin [OF assms(1) _ this [unfolded rv_def c_def]]
  obtain p1 q1 where t1: "dmul (Fin r s) (Fin 5404319552844595 (- 54)) = Fin p1 q1"
    and p1: "0 \<le> p1"
    and e1: "\<bar>valueOf (Fin p1 q1) - rv * c\<bar> \<le> rv * c / 2 ^ 53 + A"
    unfolding rv_def c_def A_def by auto
  define v1 where "v1 = valueOf (Fin p1 q1)"
  have v10: "0 \<le> v1"
    using p1 by (simp add: v1_def)
  have v1le: "v1 \<le> 1"
    using e1 [folded v1_def] x1 A60 by (simp add: abs_le_iff)
  have "v1 * b \<le> 1 * 60"
    using v1le b v10 by (intro mult_mono) simp_all
  then have "v1 * b \<le> 2 ^ 1000"
    using big by linarith
  from dmul_Fin [OF p1 assms(3) this [unfolded v1_def b_def]]
  obtain p2 q2 where t2: "dmul (Fin p1 q1) (Fin p q) = Fin p2 q2"
    and p2: "0 \<le> p2"
    and e2: "\<bar>valueOf (Fin p2 q2) - v1 * b\<bar> \<le> v1 * b / 2 ^ 53 + A"
    unfolding v1_def b_def A_def by auto
  define vj where "vj = valueOf (Fin p2 q2)"
  have vj0: "0 \<le> vj"
    using p2 by (simp add: vj_def)
  have vj61: "vj \<le> 61"
    using e2 [folded vj_def] \<open>v1 * b \<le> 1 * 60\<close> v10 b(1) A60
    by (simp add: abs_le_iff)
  have "b + vj \<le> 2 ^ 1000"
    using b(2) vj61 big by linarith
  from dadd_Fin [OF assms(3) p2 this [unfolded vj_def b_def]]
  obtain p3 q3 where t3: "dadd (Fin p q) (Fin p2 q2) = Fin p3 q3"
    and p3: "0 \<le> p3"
    and e3: "\<bar>valueOf (Fin p3 q3) - (b + vj)\<bar> \<le> (b + vj) / 2 ^ 53 + A"
    unfolding vj_def b_def A_def by auto
  define vs where "vs = valueOf (Fin p3 q3)"
  have vs0: "0 \<le> vs"
    using p3 by (simp add: vs_def)
  have vs200: "vs \<le> 200"
    using e3 [folded vs_def] b vj61 vj0 A60 by (simp add: abs_le_iff add_divide_distrib)
  have k: "valueOf (Fin 1000 0) = 1000"
    by simp
  have "vs * valueOf (Fin 1000 0) \<le> 2 ^ 1000"
    unfolding k using vs200 big by linarith
  from dmul_Fin [OF p3 _ this [unfolded vs_def]]
  obtain p4 q4 where t4: "dmul (Fin p3 q3) (Fin 1000 0) = Fin p4 q4"
    and e4: "\<bar>valueOf (Fin p4 q4) - vs * 1000\<bar> \<le> vs * 1000 / 2 ^ 53 + A"
    unfolding vs_def A_def k by auto
  from delay_arith(1,2) [OF b x1 e1 [folded v1_def] v10 refl e2 [folded vj_def] vj0
      e3 [folded vs_def] vs0 e4 A]
  have "1000 * b * (1 - 1 / 2 ^ 52) - 1 / 2 ^ 1000 \<le> valueOf (Fin p4 q4)"
    and "valueOf (Fin p4 q4) \<le> 1300 * b * (1 + 1 / 2 ^ 50) + 1 / 2 ^ 1000"
    by simp_all
  then show ?thesis
    unfolding b_def using t1 t2 t3 t4 by (simp del: valueOf.simps dmul.simps dadd.simps)
qed

section \<open>Reconnect delay\<close>

lemma delay_past_bound:
  "delayMs (Fin 4503599627370495 (- 52)) 1 (Fin 4953959590107546 (- 52)) = Fin 6289206510878721 (- 42)"
  by code_simp

lemma delay_negative_base:
  "delayMs (Fin 0 0) 1 (Fin (- 1) 0) = Fin (- 1000) 0"
  by code_simp

text \<open>
  Claim C4 says that the delay lies in \<open>[backoff, 1.3 * backoff]\<close> seconds for
  \<open>backoff = min (2 ^ (n - 1) * baseDelay) 60\<close>. The source computes in binary64. With the
  base delay 1.1 (the number nearest to it) and \<open>Math.random()\<close> returning \<open>1 - 2 ^ - 52\<close>, the
  first attempt arms \<open>1430.0000000000002\<close> milliseconds, more than 1.3 times the backoff; and
  with a base delay of \<open>- 1\<close> and \<open>Math.random()\<close> returning 0 it arms \<open>- 1000\<close>, again more
  than 1.3 times the backoff \<open>- 1\<close>.
\<close>

theorem reconnect_delay_outside_bounds:
  "timers (scheduleReconnect \<lparr>reconnectDelay = Fin 4953959590107546 (- 52), maxReconnectAttempts = \<infinity>, ignoredGatewayEvents = None\<rparr>
      (Fin 4503599627370495 (- 52)) initial) = [ReconnectTimer (Fin 6289206510878721 (- 42))] \<and>
   13 / 10 * min (2 ^ (1 - 1) * valueOf (Fin 4953959590107546 (- 52))) 60
     < valueOf (Fin 6289206510878721 (- 42)) / 1000 \<and>
   timers (scheduleReconnect \<lparr>reconnectDelay = Fin (- 1) 0, maxReconnectAttempts = \<infinity>, ignoredGatewayEvents = None\<rparr>
      (Fin 0 0) initial) = [ReconnectTimer (Fin (- 1000) 0)] \<and>
   13 / 10 * min (2 ^ (1 - 1) * valueOf (Fin (- 1) 0)) 60 < valueOf (Fin (- 1000) 0) / 1000"
  using delay_past_bound delay_negative_base
  by (simp add: scheduleReconnect_def initial_def Let_def)

text \<open>
  Claim C4, as amended: for every reconnect attempt number \<open>n \<ge> 1\<close> and a base delay that is
  a finite number and not negative, with \<open>n \<le> 1024\<close> or \<open>2 ^ (n - 1) * baseDelay \<ge> 60\<close>
  (\<open>Math.pow (2, n - 1)\<close> is \<open>Infinity\<close> from \<open>n = 1025\<close>), the computed backoff is exactly
  \<open>B = min (2 ^ (n - 1) * baseDelay) 60\<close> seconds, and the armed delay is backoff plus a jitter
  of at most 30 percent of it up to the rounding of the four operations: in milliseconds it
  lies between \<open>1000 * B * (1 - 2 ^ - 52) - 2 ^ - 1000\<close> and
  \<open>1300 * B * (1 + 2 ^ - 50) + 2 ^ - 1000\<close>.
\<close>

theorem reconnect_delay_bounds:
  assumes "\<not> destroyed g" and "\<not> isReconnecting g"
    and "enat (reconnectAttempts g) < maxReconnectAttempts cfg"
    and "rand = Fin r s" and "0 \<le> r" and "valueOf rand < 1"
    and "reconnectDelay cfg = Fin m e" and "0 \<le> m" and "bitlen m \<le> 53" and "- 1074 \<le> e"
    and "reconnectAttempts g < 1024 \<or> 60 \<le> 2 ^ reconnectAttempts g * valueOf (reconnectDelay cfg)"
  shows "\<exists>n B md ed. n = reconnectAttempts g + 1 \<and>
           reconnectAttempts (scheduleReconnect cfg rand g) = n \<and>
           B = min (2 ^ (n - 1) * valueOf (reconnectDelay cfg)) 60 \<and>
           valueOf (backoff n (reconnectDelay cfg)) = B \<and>
           timers (scheduleReconnect cfg rand g) = timers g @ [ReconnectTimer (Fin md ed)] \<and>
           1000 * B * (1 - 1 / 2 ^ 52) - 1 / 2 ^ 1000 \<le> valueOf (Fin md ed) \<and>
           valueOf (Fin md ed) \<le> 1300 * B * (1 + 1 / 2 ^ 50) + 1 / 2 ^ 1000"
proof -
  define k where "k = reconnectAttempts g"
  define B where "B = min (2 ^ k * valueOf (Fin m e)) 60"
  from backoff_value [OF assms(8,9,10), of k] assms(11)
  obtain p q where bo: "backoff (Suc k) (Fin m e) = Fin p q" and p: "0 \<le> p"
    and bv: "valueOf (Fin p q) = B"
    unfolding k_def B_def assms(7) by auto
  have "valueOf (Fin p q) \<le> 60"
    unfolding bv B_def by simp
  from delayMs_Fin [OF assms(5) assms(6) [unfolded assms(4)] p this]
  obtain md ed where
    dm: "dmul (dadd (Fin p q) (dmul (dmul (Fin r s) (Fin 5404319552844595 (- 54))) (Fin p q)))
           (Fin 1000 0) = Fin md ed"
    and lo: "1000 * B * (1 - 1 / 2 ^ 52) - 1 / 2 ^ 1000 \<le> valueOf (Fin md ed)"
    and hi: "valueOf (Fin md ed) \<le> 1300 * B * (1 + 1 / 2 ^ 50) + 1 / 2 ^ 1000"
    unfolding bv by auto
  have d: "delayMs rand (Suc k) (reconnectDelay cfg) = Fin md ed"
    unfolding delayMs_def jitter_def bo [unfolded assms(7) [symmetric]] assms(4) by (rule dm)
  have t: "timers (scheduleReconnect cfg rand g) = timers g @ [ReconnectTimer (Fin md ed)]"
    and n: "reconnectAttempts (scheduleReconnect cfg rand g) = Suc k"
    using assms(1,2,3) d by (simp_all add: scheduleReconnect_def Let_def k_def)
  have "valueOf (backoff (Suc k) (reconnectDelay cfg)) = B"
    using bo bv by (simp only: assms(7))
  with t n lo hi show ?thesis
    by (simp add: k_def [symmetric] B_def assms(7) del: valueOf.simps)
qed

theorem reconnect_delay_bounds_witness:
  "\<exists>md ed. timers (scheduleReconnect \<lparr>reconnectDelay = Fin 2 0, maxReconnectAttempts = \<infinity>, ignoredGatewayEvents = None\<rparr> (Fin 1 (- 1)) (initial\<lparr>reconnectAttempts := 2\<rparr>))
       = [ReconnectTimer (Fin md ed)] \<and>
     8000 * (1 - 1 / 2 ^ 52) - 1 / 2 ^ 1000 \<le> valueOf (Fin md ed) \<and>
     valueOf (Fin md ed) \<le> 10400 * (1 + 1 / 2 ^ 50) + 1 / 2 ^ 1000"
proof -
  have b: "bitlen 2 \<le> 53"
    by code_simp
  from reconnect_delay_bounds [of "initial\<lparr>reconnectAttempts := 2\<rparr>"
      "\<lparr>reconnectDelay = Fin 2 0, maxReconnectAttempts = \<infinity>, ignoredGatewayEvents = None\<rparr>" "Fin 1 (- 1)" 1 "- 1" 2 0]
  show ?thesis
    using b by (simp add: initial_def)
qed

section \<open>Close codes and the session\<close>

lemma heartbeat_interval_defined:
  "data \<noteq> JNull \<Longrightarrow> data \<noteq> JUndefined \<Longrightarrow> \<exists>interval. heartbeat_interval data = Inr interval"
  by (cases data) simp_all

text \<open>
  Claim C5: the close-code handler clears \<open>sessionId\<close> and \<open>sequence\<close> exactly for the codes
  4004, 4007 and 4009 and leaves the state unchanged for every other code; so does the whole
  \<open>close\<close> listener on these two fields. On the next HELLO (with a payload that is not
  \<open>null\<close>) an open connection whose session survived sends RESUME with that session, and
  IDENTIFY otherwise; a HELLO without payload throws before anything is sent.
\<close>

theorem close_code_clears_session:
  "handleCloseCode code g =
     (if code = 4004 \<or> code = 4007 \<or> code = 4009 then g\<lparr>sessionId := [], sequence := 0\<rparr> else g) \<and>
   sessionId (onClose cfg rand code reason g) =
     (if code = 4004 \<or> code = 4007 \<or> code = 4009 then [] else sessionId g) \<and>
   sequence (onClose cfg rand code reason g) =
     (if code = 4004 \<or> code = 4007 \<or> code = 4009 then 0 else sequence g) \<and>
   (ws g' = Some OPEN \<and> data \<noteq> JNull \<and> data \<noteq> JUndefined \<longrightarrow>
      (\<exists>g''. handleHello rand' data g' = Inr g'' \<and>
         sent g'' = sent g' @
           [if sessionId g' \<noteq> [] then ResumeFrame (sessionId g') (sequence g') else IdentifyFrame])) \<and>
   (data = JNull \<or> data = JUndefined \<longrightarrow> handleHello rand' data g' = Inl TypeError)"
proof -
  have hello: "\<exists>g''. handleHello rand' data g' = Inr g'' \<and>
         sent g'' = sent g' @
           [if sessionId g' \<noteq> [] then ResumeFrame (sessionId g') (sequence g') else IdentifyFrame]"
    if "ws g' = Some OPEN" "data \<noteq> JNull" "data \<noteq> JUndefined"
  proof -
    from heartbeat_interval_defined [OF that(2,3)]
    obtain interval where "heartbeat_interval data = Inr interval" ..
    with that(1) show ?thesis
      by (simp add: handleHello_def Let_def sendResume_def sendIdentify_def send_def
            startHeartbeat_frame)
  qed
  have thrown: "handleHello rand' data g' = Inl TypeError" if "data = JNull \<or> data = JUndefined"
    using that by (auto simp add: handleHello_def)
  show ?thesis
    using hello thrown
    by (simp add: handleCloseCode_def AuthenticationFailed_def InvalidSequence_def
          SessionTimedOut_def onClose_def Let_def scheduleReconnect_frame settle_frame emit_frame
          stopHeartbeat_frame)
qed

theorem close_code_clears_session_witness:
  "sessionId (onClose \<lparr>reconnectDelay = Fin 2 0, maxReconnectAttempts = \<infinity>, ignoredGatewayEvents = None\<rparr> (Fin 0 0) 1006 ''gone''
      (initial\<lparr>ws := Some CLOSED, sessionId := ''abc'', sequence := 42\<rparr>)) = ''abc'' \<and>
   sequence (onClose \<lparr>reconnectDelay = Fin 2 0, maxReconnectAttempts = \<infinity>, ignoredGatewayEvents = None\<rparr> (Fin 0 0) 1006 ''gone''
      (initial\<lparr>ws := Some CLOSED, sessionId := ''abc'', sequence := 42\<rparr>)) = 42 \<and>
   (\<exists>g''. handleHello (Fin 0 0) (JObj [(''heartbeat_interval'', JNum 1000)])
        (initial\<lparr>ws := Some OPEN, sessionId := ''abc'', sequence := 42\<rparr>) = Inr g'' \<and>
      sent g'' = [ResumeFrame ''abc'' 42])"
  using close_code_clears_session
      [of 1006 "initial\<lparr>ws := Some CLOSED, sessionId := ''abc'', sequence := 42\<rparr>"
       "\<lparr>reconnectDelay = Fin 2 0, maxReconnectAttempts = \<infinity>, ignoredGatewayEvents = None\<rparr>" "Fin 0 0" "''gone''"
       "initial\<lparr>ws := Some OPEN, sessionId := ''abc'', sequence := 42\<rparr>"
       "JObj [(''heartbeat_interval'', JNum 1000)]" "Fin 0 0"]
  by (simp add: initial_def)

section \<open>One reconnect in flight\<close>

lemma run_reconnect_request:
  "pendingReconnects (run \<lparr>reconnectDelay = Fin 2 0, maxReconnectAttempts = \<infinity>, ignoredGatewayEvents = None\<rparr>
     [(Fin 0 0, 0, Connect), (Fin 0 0, 1, WsOpen),
      (Fin 1 (- 1), 2, WsMessage (Some \<lparr>pkt_op = Reconnect, pkt_d = JNull, pkt_s = None, pkt_t = None\<rparr>))] initial) = 1"
  by (simp add: step_def connect_def cleanup_def stopHeartbeat_def initial_def handleMessage_def
        scheduleReconnect_def pendingReconnects_def Let_def)

text \<open>
  Claim C6: in every state a client can reach from its initial state, by any calls, socket
  events and timers, at most one reconnect timeout is armed, and while one is armed a further
  call of \<open>_scheduleReconnect\<close> changes nothing.
\<close>

theorem reconnect_single_pending:
  "pendingReconnects (run cfg evs initial) \<le> 1 \<and>
   (pendingReconnects (run cfg evs initial) = 1 \<longrightarrow>
      scheduleReconnect cfg rand (run cfg evs initial) = run cfg evs initial)"
proof -
  have inv: "reconnectInv (run cfg evs initial)"
    by (rule run_inv [OF initial_inv])
  then show ?thesis
    by (auto simp add: reconnectInv_def scheduleReconnect_def split: if_splits)
qed

theorem reconnect_single_pending_witness:
  "pendingReconnects (run \<lparr>reconnectDelay = Fin 2 0, maxReconnectAttempts = \<infinity>, ignoredGatewayEvents = None\<rparr>
     [(Fin 0 0, 0, Connect), (Fin 0 0, 1, WsOpen),
      (Fin 1 (- 1), 2, WsMessage (Some \<lparr>pkt_op = Reconnect, pkt_d = JNull, pkt_s = None, pkt_t = None\<rparr>))] initial) = 1 \<and>
   scheduleReconnect \<lparr>reconnectDelay = Fin 2 0, maxReconnectAttempts = \<infinity>, ignoredGatewayEvents = None\<rparr> (Fin 1 (- 2))
     (run \<lparr>reconnectDelay = Fin 2 0, maxReconnectAttempts = \<infinity>, ignoredGatewayEvents = None\<rparr>
     [(Fin 0 0, 0, Connect), (Fin 0 0, 1, WsOpen),
      (Fin 1 (- 1), 2, WsMessage (Some \<lparr>pkt_op = Reconnect, pkt_d = JNull, pkt_s = None, pkt_t = None\<rparr>))] initial)
   = run \<lparr>reconnectDelay = Fin 2 0, maxReconnectAttempts = \<infinity>, ignoredGatewayEvents = None\<rparr>
     [(Fin 0 0, 0, Connect), (Fin 0 0, 1, WsOpen),
      (Fin 1 (- 1), 2, WsMessage (Some \<lparr>pkt_op = Reconnect, pkt_d = JNull, pkt_s = None, pkt_t = None\<rparr>))] initial"
  using run_reconnect_request reconnect_single_pending [of "\<lparr>reconnectDelay = Fin 2 0, maxReconnectAttempts = \<infinity>, ignoredGatewayEvents = None\<rparr>"
     "[(Fin 0 0, 0, Connect), (Fin 0 0, 1, WsOpen),
      (Fin 1 (- 1), 2, WsMessage (Some \<lparr>pkt_op = Reconnect, pkt_d = JNull, pkt_s = None, pkt_t = None\<rparr>))]" "Fin 1 (- 2)"]
  by simp

section \<open>destroy during a reconnect delay\<close>

text \<open>
  What the destroyed flag achieves: the reconnect timeout firing with the flag set only
  resets \<open>_isReconnecting\<close> and returns without entering \<open>connect()\<close>; \<open>destroy()\<close> sets the
  flag and leaves the armed timeout in place; and the flag stays set, with \<open>connect()\<close> never
  entered, through every later socket event and timer, as long as the user does not call
  \<open>connect()\<close> again.
\<close>

lemma destroyed_blocks_reconnect:
  "(destroyed g \<and> i < length (timers g) \<and> timers g ! i = ReconnectTimer dl \<longrightarrow>
      step cfg rand now (TimerFired i) g = g\<lparr>timers := removeAt i (timers g), isReconnecting := False\<rparr>) \<and>
   pendingReconnects (destroy g) = pendingReconnects g \<and>
   ((\<forall>e \<in> set evs. snd (snd e) \<noteq> Connect) \<longrightarrow>
      destroyed (run cfg evs (destroy g)) \<and> connectCalls (run cfg evs (destroy g)) = connectCalls g)"
proof -
  have d: "destroyed (run cfg evs (destroy g)) \<and> connectCalls (run cfg evs (destroy g)) = connectCalls (destroy g)"
    if "\<forall>e \<in> set evs. snd (snd e) \<noteq> Connect"
    using that by (intro run_destroyed) (simp_all add: destroy_frame)
  then show ?thesis
    by (simp add: destroy_frame step_def fireTimer_def reconnectFired_def Let_def)
qed

text \<open>
  Claim C8: once \<open>destroy()\<close> has been called during a reconnect delay, the delayed
  \<open>connect()\<close> never runs. \<open>destroy()\<close> does not clear the timeout, and \<open>connect()\<close> resets
  the destroyed flag. A connection closes with code 1006 and a reconnect is scheduled; the user
  calls \<open>destroy()\<close>, with the timeout still armed, and then \<open>connect()\<close>, which reaches READY
  on an open socket after two calls of \<open>connect()\<close> in all. Then the stale timeout fires: it
  enters \<open>connect()\<close> a third time and replaces the open socket by a connecting one.
\<close>

theorem stale_reconnect_after_destroy:
  "pendingReconnects (run \<lparr>reconnectDelay = Fin 2 0, maxReconnectAttempts = \<infinity>, ignoredGatewayEvents = None\<rparr>
     [(Fin 0 0, 0, Connect), (Fin 0 0, 1, WsOpen), (Fin 1 (- 1), 2, WsClose 1006 []),
      (Fin 0 0, 3, Destroy)] initial) = 1 \<and>
   destroyed (run \<lparr>reconnectDelay = Fin 2 0, maxReconnectAttempts = \<infinity>, ignoredGatewayEvents = None\<rparr>
     [(Fin 0 0, 0, Connect), (Fin 0 0, 1, WsOpen), (Fin 1 (- 1), 2, WsClose 1006 []),
      (Fin 0 0, 3, Destroy)] initial) \<and>
   ws (run \<lparr>reconnectDelay = Fin 2 0, maxReconnectAttempts = \<infinity>, ignoredGatewayEvents = None\<rparr>
     [(Fin 0 0, 0, Connect), (Fin 0 0, 1, WsOpen), (Fin 1 (- 1), 2, WsClose 1006 []),
      (Fin 0 0, 3, Destroy), (Fin 0 0, 4, Connect), (Fin 0 0, 5, WsOpen),
      (Fin 0 0, 6, WsMessage (Some \<lparr>pkt_op = Dispatch, pkt_d = JObj [(''session_id'', JStr ''s1'')], pkt_s = Some 1, pkt_t = Some ''READY''\<rparr>))] initial) = Some OPEN \<and>
   connectCalls (run \<lparr>reconnectDelay = Fin 2 0, maxReconnectAttempts = \<infinity>, ignoredGatewayEvents = None\<rparr>
     [(Fin 0 0, 0, Connect), (Fin 0 0, 1, WsOpen), (Fin 1 (- 1), 2, WsClose 1006 []),
      (Fin 0 0, 3, Destroy), (Fin 0 0, 4, Connect), (Fin 0 0, 5, WsOpen),
      (Fin 0 0, 6, WsMessage (Some \<lparr>pkt_op = Dispatch, pkt_d = JObj [(''session_id'', JStr ''s1'')], pkt_s = Some 1, pkt_t = Some ''READY''\<rparr>))] initial) = 2 \<and>
   connectCalls (run \<lparr>reconnectDelay = Fin 2 0, maxReconnectAttempts = \<infinity>, ignoredGatewayEvents = None\<rparr>
     [(Fin 0 0, 0, Connect), (Fin 0 0, 1, WsOpen), (Fin 1 (- 1), 2, WsClose 1006 []),
      (Fin 0 0, 3, Destroy), (Fin 0 0, 4, Connect), (Fin 0 0, 5, WsOpen),
      (Fin 0 0, 6, WsMessage (Some \<lparr>pkt_op = Dispatch, pkt_d = JObj [(''session_id'', JStr ''s1'')], pkt_s = Some 1, pkt_t = Some ''READY''\<rparr>)),
      (Fin 0 0, 7, TimerFired 0)] initial) = 3 \<and>
   ws (run \<lparr>reconnectDelay = Fin 2 0, maxReconnectAttempts = \<infinity>, ignoredGatewayEvents = None\<rparr>
     [(Fin 0 0, 0, Connect), (Fin 0 0, 1, WsOpen), (Fin 1 (- 1), 2, WsClose 1006 []),
      (Fin 0 0, 3, Destroy), (Fin 0 0, 4, Connect), (Fin 0 0, 5, WsOpen),
      (Fin 0 0, 6, WsMessage (Some \<lparr>pkt_op = Dispatch, pkt_d = JObj [(''session_id'', JStr ''s1'')], pkt_s = Some 1, pkt_t = Some ''READY''\<rparr>)),
      (Fin 0 0, 7, TimerFired 0)] initial) = Some CONNECTING"
  by (simp add: step_def connect_def destroy_def cleanup_def stopHeartbeat_def initial_def
        onClose_def emit_def handleCloseCode_def AuthenticationFailed_def InvalidSequence_def
        SessionTimedOut_def settle_def shouldReconnectForCode_def scheduleReconnect_def
        handleMessage_def handleDispatch_def ignored_def fireTimer_def removeAt_def
        reconnectFired_def pendingReconnects_def Let_def)

section \<open>waitFor settles once and leaves no listener\<close>

lemma removeLast_snoc: "removeLast x (xs @ [x]) = xs"
  by (simp add: removeLast_def)

lemma foldl_foreign:
  "(event, h) \<notin> set xs \<Longrightarrow>
   foldl (\<lambda>w' l. if l = (event, h) then handler event filt h data w' else w') w xs = w"
  by (induction xs arbitrary: w) auto

lemma emitTo_settled:
  assumes "(event, h) \<notin> set (listeners w)"
  shows "emitTo event filt h name data w = w"
proof -
  have "(event, h) \<notin> set (filter (\<lambda>l. fst l = name) (listeners w))"
    using assms by simp
  then show ?thesis
    unfolding emitTo_def by (rule foldl_foreign)
qed

lemma emitTo_pending:
  assumes "(event, h) \<notin> set ls"
  shows "emitTo event filt h name data \<lparr>listeners = ls @ [(event, h)], timer = tm, fired = []\<rparr> =
           (if matching event filt (Emit name data)
            then \<lparr>listeners = ls, timer = None, fired = [Resolved data]\<rparr>
            else \<lparr>listeners = ls @ [(event, h)], timer = tm, fired = []\<rparr>)"
proof -
  let ?w = "\<lparr>listeners = ls @ [(event, h)], timer = tm, fired = []\<rparr>"
  let ?f = "\<lambda>w' l. if l = (event, h) then handler event filt h data w' else w'"
  have foreign: "foldl ?f ?w (filter (\<lambda>l. fst l = name) ls) = ?w"
    using assms by (intro foldl_foreign) simp
  show ?thesis
  proof (cases "name = event")
    case False
    then have "emitTo event filt h name data ?w = foldl ?f ?w (filter (\<lambda>l. fst l = name) ls)"
      by (simp add: emitTo_def)
    with foreign False show ?thesis
      by (simp add: matching_def)
  next
    case True
    then have "emitTo event filt h name data ?w =
               handler event filt h data (foldl ?f ?w (filter (\<lambda>l. fst l = name) ls))"
      by (simp add: emitTo_def)
    with foreign have "emitTo event filt h name data ?w = handler event filt h data ?w"
      by simp
    with True show ?thesis
      by (simp add: handler_def cleanupWait_def removeLast_snoc matching_def split: option.splits)
  qed
qed

lemma runWait_settled:
  assumes "(event, h) \<notin> set (listeners w)" and "timer w = None"
  shows "runWait event filt h evs w = w"
proof (induction evs)
  case Nil
  show ?case by simp
next
  case (Cons e evs)
  have "stepWait event filt h e w = w"
    using assms by (cases e) (simp_all add: emitTo_settled timeoutElapsed_def)
  with Cons show ?case by simp
qed

lemma runWait_timed:
  assumes "(event, h) \<notin> set ls"
  shows "runWait event filt h evs \<lparr>listeners = ls @ [(event, h)], timer = Some ms, fired = []\<rparr> =
           (case firstSettlement event filt ms evs of
              None \<Rightarrow> \<lparr>listeners = ls @ [(event, h)], timer = Some ms, fired = []\<rparr>
            | Some x \<Rightarrow> \<lparr>listeners = ls, timer = None, fired = [x]\<rparr>)"
proof (induction evs)
  case Nil
  show ?case by simp
next
  case (Cons e evs)
  show ?case
  proof (cases e)
    case (Emit name data)
    show ?thesis
    proof (cases "matching event filt (Emit name data)")
      case True
      have "runWait event filt h evs \<lparr>listeners = ls, timer = None, fired = [Resolved data]\<rparr> =
            \<lparr>listeners = ls, timer = None, fired = [Resolved data]\<rparr>"
        using assms by (intro runWait_settled) simp_all
      with True Emit show ?thesis
        by (simp add: emitTo_pending [OF assms])
    next
      case False
      with Emit Cons show ?thesis
        by (simp add: emitTo_pending [OF assms])
    qed
  next
    case TimeoutElapsed
    have "runWait event filt h evs \<lparr>listeners = ls, timer = None, fired = [Rejected event ms]\<rparr> =
          \<lparr>listeners = ls, timer = None, fired = [Rejected event ms]\<rparr>"
      using assms by (intro runWait_settled) simp_all
    with TimeoutElapsed show ?thesis
      by (simp add: timeoutElapsed_def cleanupWait_def removeLast_snoc)
  qed
qed

lemma firstSettlement_timeout:
  "TimeoutElapsed \<in> set evs \<Longrightarrow> firstSettlement event filt ms evs \<noteq> None"
proof (induction evs)
  case Nil
  then show ?case by simp
next
  case (Cons e evs)
  then show ?case by (cases e) auto
qed

lemma runWait_untimed:
  assumes "(event, h) \<notin> set ls"
  shows "runWait event filt h evs \<lparr>listeners = ls @ [(event, h)], timer = None, fired = []\<rparr> =
           (case find (matching event filt) evs of
              Some (Emit name data) \<Rightarrow> \<lparr>listeners = ls, timer = None, fired = [Resolved data]\<rparr>
            | _ \<Rightarrow> \<lparr>listeners = ls @ [(event, h)], timer = None, fired = []\<rparr>)"
proof (induction evs)
  case Nil
  show ?case by simp
next
  case (Cons e evs)
  show ?case
  proof (cases e)
    case (Emit name data)
    show ?thesis
    proof (cases "matching event filt (Emit name data)")
      case True
      have "runWait event filt h evs \<lparr>listeners = ls, timer = None, fired = [Resolved data]\<rparr> =
            \<lparr>listeners = ls, timer = None, fired = [Resolved data]\<rparr>"
        using assms by (intro runWait_settled) simp_all
      with True Emit show ?thesis
        by (simp add: emitTo_pending [OF assms])
    next
      case False
      with Emit Cons show ?thesis
        by (simp add: emitTo_pending [OF assms])
    qed
  next
    case TimeoutElapsed
    with Cons show ?thesis
      by (simp add: timeoutElapsed_def matching_def)
  qed
qed

text \<open>
  Claim C7: after \<open>waitFor\<close> with a positive timeout, whatever is emitted and whenever the
  timeout elapses, the calls of resolve and reject are those the documentation promises: a
  resolve with the first matching event that passes the filter, or a reject when the timeout
  elapses first, and nothing after it. So at most one fires, exactly one has fired once the
  timeout has elapsed, and after it the listeners of the emitter are those before the call and
  the timeout is cleared.
\<close>

theorem waitFor_settles_once:
  assumes "(event, h) \<notin> set ls" and "0 < ms"
  shows "fired (runWait event filt h evs (waitFor event filt (Some ms) h ls)) =
           (case firstSettlement event filt ms evs of None \<Rightarrow> [] | Some x \<Rightarrow> [x]) \<and>
         length (fired (runWait event filt h evs (waitFor event filt (Some ms) h ls))) \<le> 1 \<and>
         (TimeoutElapsed \<in> set evs \<longrightarrow>
            length (fired (runWait event filt h evs (waitFor event filt (Some ms) h ls))) = 1) \<and>
         (fired (runWait event filt h evs (waitFor event filt (Some ms) h ls)) \<noteq> [] \<longrightarrow>
            listeners (runWait event filt h evs (waitFor event filt (Some ms) h ls)) = ls \<and>
            timer (runWait event filt h evs (waitFor event filt (Some ms) h ls)) = None)"
proof -
  have w: "waitFor event filt (Some ms) h ls = \<lparr>listeners = ls @ [(event, h)], timer = Some ms, fired = []\<rparr>"
    using assms(2) by (simp add: waitFor_def)
  show ?thesis
    using firstSettlement_timeout [of evs event filt ms]
    by (auto simp add: w runWait_timed [OF assms(1)] split: option.splits)
qed

theorem waitFor_settles_once_witness:
  "fired (runWait ''MESSAGE_CREATE'' (Some (\<lambda>d. d = JNum 2)) 7
      [Emit ''TYPING_START'' JNull, Emit ''MESSAGE_CREATE'' (JNum 1), Emit ''MESSAGE_CREATE'' (JNum 2),
       TimeoutElapsed, Emit ''MESSAGE_CREATE'' (JNum 2)]
      (waitFor ''MESSAGE_CREATE'' (Some (\<lambda>d. d = JNum 2)) (Some 30000) 7 [(''MESSAGE_CREATE'', 1)]))
     = [Resolved (JNum 2)] \<and>
   listeners (runWait ''MESSAGE_CREATE'' (Some (\<lambda>d. d = JNum 2)) 7
      [Emit ''TYPING_START'' JNull, Emit ''MESSAGE_CREATE'' (JNum 1), Emit ''MESSAGE_CREATE'' (JNum 2),
       TimeoutElapsed, Emit ''MESSAGE_CREATE'' (JNum 2)]
      (waitFor ''MESSAGE_CREATE'' (Some (\<lambda>d. d = JNum 2)) (Some 30000) 7 [(''MESSAGE_CREATE'', 1)]))
     = [(''MESSAGE_CREATE'', 1)]"
  using waitFor_settles_once [of "''MESSAGE_CREATE''" 7 "[(''MESSAGE_CREATE'', 1)]" 30000
       "Some (\<lambda>d. d = JNum 2)"
       "[Emit ''TYPING_START'' JNull, Emit ''MESSAGE_CREATE'' (JNum 1), Emit ''MESSAGE_CREATE'' (JNum 2),
       TimeoutElapsed, Emit ''MESSAGE_CREATE'' (JNum 2)]"]
  by (simp add: matching_def)

text \<open>
  Claim C10: when the timeout option is undefined, zero or negative, \<open>waitFor\<close> arms no
  timeout; whatever happens afterwards reject is never called, and as long as no matching
  event is emitted the call stays as it was: pending, with its listener registered.
\<close>

theorem waitFor_without_timeout:
  assumes "(event, h) \<notin> set ls" and "timeout = None \<or> (\<exists>ms. timeout = Some ms \<and> ms \<le> 0)"
  shows "timer (waitFor event filt timeout h ls) = None \<and>
         (\<forall>name ms. Rejected name ms \<notin> set (fired (runWait event filt h evs (waitFor event filt timeout h ls)))) \<and>
         ((\<forall>e \<in> set evs. \<not> matching event filt e) \<longrightarrow>
            runWait event filt h evs (waitFor event filt timeout h ls) = waitFor event filt timeout h ls)"
proof -
  have w: "waitFor event filt timeout h ls = \<lparr>listeners = ls @ [(event, h)], timer = None, fired = []\<rparr>"
    using assms(2) by (auto simp add: waitFor_def)
  have none: "find (matching event filt) evs = None" if "\<forall>e \<in> set evs. \<not> matching event filt e"
    using that by (simp add: find_None_iff)
  show ?thesis
    using none
    by (auto simp add: w runWait_untimed [OF assms(1)] split: option.splits waitEvent.splits)
qed

theorem waitFor_without_timeout_witness:
  "timer (waitFor ''READY'' None (Some 0) 3 []) = None \<and>
   runWait ''READY'' None 3 [Emit ''RESUMED'' JUndefined, TimeoutElapsed] (waitFor ''READY'' None (Some 0) 3 [])
     = waitFor ''READY'' None (Some 0) 3 []"
  using waitFor_without_timeout [of "''READY''" 3 "[]" "Some 0" None "[Emit ''RESUMED'' JUndefined, TimeoutElapsed]"]
  by (simp add: matching_def)

section \<open>The sliding window\<close>

lemma prune_frame:
  "limit (prune now b) = limit b" "windowMs (prune now b) = windowMs b"
  "length (timestamps (prune now b)) \<le> length (timestamps b)"
  by (simp_all add: prune_def)

lemma tryAcquire_frame:
  "limit (snd (tryAcquire now b)) = limit b" "windowMs (snd (tryAcquire now b)) = windowMs b"
  by (simp_all add: tryAcquire_def Let_def prune_frame split: list.splits)

lemma tryAcquire_bound:
  assumes "length (timestamps b) \<le> limit b"
  shows "length (timestamps (snd (tryAcquire now b))) \<le> limit b"
  using assms prune_frame(3) [of now b]
  by (auto simp add: tryAcquire_def Let_def prune_frame(1,2) split: list.splits)

lemma requests_bound:
  "length (timestamps b) \<le> limit b \<Longrightarrow>
   length (timestamps (requests b instants)) \<le> limit b \<and> limit (requests b instants) = limit b
     \<and> windowMs (requests b instants) = windowMs b"
proof (induction b instants rule: requests.induct)
  case (1 b)
  then show ?case by simp
next
  case (2 b now rest)
  then show ?case
    using tryAcquire_bound [of b now] by (simp add: tryAcquire_frame)
qed

lemma acquire_bound:
  "length (timestamps b) \<le> limit b \<Longrightarrow> acquire b now lates = Some (t, b') \<Longrightarrow>
   now \<le> t \<and> length (timestamps b') \<le> limit b \<and> limit b' = limit b \<and> windowMs b' = windowMs b"
proof (induction lates arbitrary: b now)
  case Nil
  then show ?case
    using tryAcquire_bound [of b now] tryAcquire_frame [of now b]
    by (auto split: prod.splits decision.splits)
next
  case (Cons late lates)
  show ?case
  proof (cases "tryAcquire now b")
    case (Pair dec b1)
    have b1: "length (timestamps b1) \<le> limit b1" "limit b1 = limit b" "windowMs b1 = windowMs b"
      using tryAcquire_bound [OF Cons.prems(1), of now] tryAcquire_frame [of now b] Pair by simp_all
    show ?thesis
    proof (cases dec)
      case Admitted
      with Pair Cons.prems b1 show ?thesis by simp
    next
      case (Wait waitMs)
      with Pair Cons.prems(2) have "acquire b1 (now + max waitMs 0 + int late) lates = Some (t, b')"
        by simp
      from Cons.IH [OF b1(1) this] b1 show ?thesis by (simp add: max_def split: if_splits)
    qed
  qed
qed

text \<open>
  Claim C9: for a bucket that started empty and has seen any sequence of admission
  requests, after the next admission decision the recorded timestamps, and so those younger
  than \<open>windowMs\<close> at any instant, number at most \<open>limit\<close>; and when that decision is to wait,
  the request is admitted no earlier than the oldest remaining timestamp plus \<open>windowMs\<close>, again
  leaving at most \<open>limit\<close> timestamps.
\<close>

theorem bucket_window_invariant:
  assumes "b = requests \<lparr>limit = L, windowMs = W, timestamps = []\<rparr> instants"
  shows "length (younger clock (snd (tryAcquire now b))) \<le> L \<and>
         length (timestamps (snd (tryAcquire now b))) \<le> L \<and>
         (0 < L \<and> fst (tryAcquire now b) \<noteq> Admitted \<and> acquire b now lates = Some (t, b') \<longrightarrow>
            hd (timestamps (snd (tryAcquire now b))) + W \<le> t \<and> length (younger clock' b') \<le> L)"
proof -
  have b: "length (timestamps b) \<le> limit b" "limit b = L" "windowMs b = W"
    using requests_bound [of "\<lparr>limit = L, windowMs = W, timestamps = []\<rparr>" instants] assms by simp_all
  have len: "length (timestamps (snd (tryAcquire now b))) \<le> L"
    using tryAcquire_bound [OF b(1), of now] b(2) by simp
  have young: "length (younger clock c) \<le> length (timestamps c)" for clock c
    by (simp add: younger_def)
  have late: "hd (timestamps (snd (tryAcquire now b))) + W \<le> t \<and> length (younger clock' b') \<le> L"
    if L: "0 < L" and w: "fst (tryAcquire now b) \<noteq> Admitted" and a: "acquire b now lates = Some (t, b')"
  proof -
    obtain waitMs b1 where t: "tryAcquire now b = (Wait waitMs, b1)"
      using w by (cases "tryAcquire now b"; cases "fst (tryAcquire now b)") auto
    have full: "\<not> length (timestamps (prune now b)) < L"
      using t b(2) by (auto simp add: tryAcquire_def Let_def prune_frame split: if_splits)
    then obtain oldest others where ts: "timestamps (prune now b) = oldest # others"
      using L by (cases "timestamps (prune now b)") auto
    have b1: "b1 = prune now b" and wm: "waitMs = oldest + W - now"
      using t ts full b(2,3) by (auto simp add: tryAcquire_def Let_def prune_frame split: if_splits)
    obtain late rest where lates: "lates = late # rest"
      using a t by (cases lates) auto
    have a': "acquire b1 (now + max waitMs 0 + int late) rest = Some (t, b')"
      using a t lates by simp
    have b1len: "length (timestamps b1) \<le> limit b1"
      using tryAcquire_bound [OF b(1), of now] tryAcquire_frame [of now b] t by simp
    have "limit b1 = L"
      using tryAcquire_frame [of now b] t b(2) by simp
    with acquire_bound [OF b1len a'] have "now + max waitMs 0 + int late \<le> t" and "length (timestamps b') \<le> L"
      by simp_all
    then have "oldest + W \<le> t" and "length (younger clock' b') \<le> L"
      using wm young [of clock' b'] by simp_all
    with t b1 ts show ?thesis by simp
  qed
  from len young [of clock "snd (tryAcquire now b)"] late show ?thesis
    by auto
qed

theorem bucket_window_invariant_witness:
  "acquire (requests \<lparr>limit = 2, windowMs = 1000, timestamps = []\<rparr> [0, 100]) 200 [0, 1]
     = Some (1001, \<lparr>limit = 2, windowMs = 1000, timestamps = [100, 1001]\<rparr>) \<and>
   hd (timestamps (snd (tryAcquire 200 (requests \<lparr>limit = 2, windowMs = 1000, timestamps = []\<rparr> [0, 100]))))
     + 1000 \<le> 1001"
  using bucket_window_invariant
      [of "requests \<lparr>limit = 2, windowMs = 1000, timestamps = []\<rparr> [0, 100]" 2 1000 "[0, 100]"
          200 200 "[0, 1]" 1001 "\<lparr>limit = 2, windowMs = 1000, timestamps = [100, 1001]\<rparr>" 1001]
  by (simp add: tryAcquire_def prune_def Let_def)

end
